theory Spec2Isabelle
  imports Complex_Main "HOL-Library.Word" "HOL-Library.Log_Nat"
begin

unbundle bit_operations_syntax

section \<open>Registers and lanes\<close>

text \<open>
  The kernels of \<^verbatim>\<open>kernels/implementations.inl\<close> are compiled three times, once per
  \<^verbatim>\<open>CPU_NAME\<close>. The integer register \<^verbatim>\<open>vi = vector_t<CPU_NAME, int>\<close> is a list of
  32-bit lanes (4, 8 or 16 of them); the 8-bit and 16-bit intrinsics act on the bytes and
  the 16-bit halves of every lane, in little-endian order. The float register \<^verbatim>\<open>vf\<close> is a
  list of binary32 bit patterns, and \<^verbatim>\<open>vd\<close> a list of binary64 bit patterns.
\<close>

datatype CPUType = SSE2 | AVX2 | AVX512BW

type_synonym f32 = "32 word"
type_synonym f64 = "64 word"
type_synonym vi = "32 word list"
type_synonym vf = "f32 list"
type_synonym vd = "f64 list"

fun lanes :: "CPUType \<Rightarrow> nat" where
  "lanes SSE2 = 4"
| "lanes AVX2 = 8"
| "lanes AVX512BW = 16"

definition bytes_of :: "32 word \<Rightarrow> 8 word list" where
  "bytes_of w = [ucast w, ucast (drop_bit 8 w), ucast (drop_bit 16 w), ucast (drop_bit 24 w)]"

fun of_bytes :: "8 word list \<Rightarrow> 32 word" where
  "of_bytes [] = 0"
| "of_bytes (b # bs) = ucast b OR push_bit 8 (of_bytes bs)"

definition halves_of :: "32 word \<Rightarrow> 16 word list" where
  "halves_of w = [ucast w, ucast (drop_bit 16 w)]"

fun of_halves :: "16 word list \<Rightarrow> 32 word" where
  "of_halves [] = 0"
| "of_halves (h # hs) = ucast h OR push_bit 16 (of_halves hs)"

definition epi8 :: "(8 word \<Rightarrow> 8 word \<Rightarrow> 8 word) \<Rightarrow> vi \<Rightarrow> vi \<Rightarrow> vi" where
  "epi8 f a b = map2 (\<lambda>x y. of_bytes (map2 f (bytes_of x) (bytes_of y))) a b"

definition epi16 :: "(16 word \<Rightarrow> 16 word \<Rightarrow> 16 word) \<Rightarrow> vi \<Rightarrow> vi \<Rightarrow> vi" where
  "epi16 f a b = map2 (\<lambda>x y. of_halves (map2 f (halves_of x) (halves_of y))) a b"

definition epi32 :: "(32 word \<Rightarrow> 32 word \<Rightarrow> 32 word) \<Rightarrow> vi \<Rightarrow> vi \<Rightarrow> vi" where
  "epi32 f a b = map2 f a b"

text \<open>The 8-bit and the 16-bit lanes of a register, in memory order.\<close>

definition int8_lanes :: "vi \<Rightarrow> 8 word list" where
  "int8_lanes v = concat (map bytes_of v)"

definition int16_lanes :: "vi \<Rightarrow> 16 word list" where
  "int16_lanes v = concat (map halves_of v)"

section \<open>Integer intrinsics (intrinsics.h)\<close>

text \<open>
  Each wrapper of \<^verbatim>\<open>intrinsics.h\<close> forwards to the instruction of the same name at its
  register width; the lane-wise meaning is the same on the three tiers, so one definition
  serves all of them.
\<close>

definition set1_epi8 :: "CPUType \<Rightarrow> 8 word \<Rightarrow> vi" where
  "set1_epi8 t v = replicate (lanes t) (of_bytes [v, v, v, v])"

definition set1_epi16 :: "CPUType \<Rightarrow> 16 word \<Rightarrow> vi" where
  "set1_epi16 t v = replicate (lanes t) (of_halves [v, v])"

definition set1_epi32 :: "CPUType \<Rightarrow> 32 word \<Rightarrow> vi" where
  "set1_epi32 t v = replicate (lanes t) v"

definition add_epi8 :: "vi \<Rightarrow> vi \<Rightarrow> vi" where
  "add_epi8 = epi8 (+)"

definition add_epi16 :: "vi \<Rightarrow> vi \<Rightarrow> vi" where
  "add_epi16 = epi16 (+)"

definition add_epi32 :: "vi \<Rightarrow> vi \<Rightarrow> vi" where
  "add_epi32 = epi32 (+)"

definition and_si :: "vi \<Rightarrow> vi \<Rightarrow> vi" where
  "and_si = epi32 (AND)"

definition or_si :: "vi \<Rightarrow> vi \<Rightarrow> vi" where
  "or_si = epi32 (OR)"

definition smax :: "'a::len word \<Rightarrow> 'a word \<Rightarrow> 'a word" where
  "smax x y = (if sint y < sint x then x else y)"

definition cmplt :: "'a::len word \<Rightarrow> 'a word \<Rightarrow> 'a word" where
  "cmplt x y = (if sint x < sint y then - 1 else 0)"

definition mm_cmplt_epi8 :: "vi \<Rightarrow> vi \<Rightarrow> vi" where
  "mm_cmplt_epi8 = epi8 cmplt"

definition mm_cmplt_epi32 :: "vi \<Rightarrow> vi \<Rightarrow> vi" where
  "mm_cmplt_epi32 = epi32 cmplt"

definition max_epi8 :: "vi \<Rightarrow> vi \<Rightarrow> vi" where
  "max_epi8 = epi8 smax"

definition max_epi16 :: "vi \<Rightarrow> vi \<Rightarrow> vi" where
  "max_epi16 = epi16 smax"

definition max_epi32 :: "vi \<Rightarrow> vi \<Rightarrow> vi" where
  "max_epi32 = epi32 smax"

definition mullo_epi16 :: "vi \<Rightarrow> vi \<Rightarrow> vi" where
  "mullo_epi16 = epi16 (*)"

definition mullo_epi32 :: "vi \<Rightarrow> vi \<Rightarrow> vi" where
  "mullo_epi32 = epi32 (*)"

definition slli_epi16 :: "vi \<Rightarrow> nat \<Rightarrow> vi" where
  "slli_epi16 a n = map (\<lambda>x. of_halves (map (push_bit n) (halves_of x))) a"

definition srli_epi16 :: "vi \<Rightarrow> nat \<Rightarrow> vi" where
  "srli_epi16 a n = map (\<lambda>x. of_halves (map (drop_bit n) (halves_of x))) a"

text \<open>
  \<^verbatim>\<open>mul_epu32\<close> multiplies the low 32 bits of every 64-bit lane, unsigned, into the whole
  64-bit lane: lanes \<open>2i\<close> and \<open>2i + 1\<close> of the result hold the low and the high half of
  the product of lanes \<open>2i\<close> of the arguments.
\<close>

fun mul_epu32 :: "vi \<Rightarrow> vi \<Rightarrow> vi" where
  "mul_epu32 (a0 # a1 # as) (b0 # b1 # bs) =
     (let p = (ucast a0 :: 64 word) * ucast b0 in
      ucast p # ucast (drop_bit 32 p) # mul_epu32 as bs)"
| "mul_epu32 _ _ = []"

text \<open>\<^verbatim>\<open>_mm_srli_si128\<close> shifts the whole 128-bit register right by a number of bytes.\<close>

fun regroup :: "8 word list \<Rightarrow> vi" where
  "regroup (b0 # b1 # b2 # b3 # bs) = of_bytes [b0, b1, b2, b3] # regroup bs"
| "regroup _ = []"

definition mm_srli_si128 :: "vi \<Rightarrow> nat \<Rightarrow> vi" where
  "mm_srli_si128 a n =
     (let bs = int8_lanes a in regroup (drop n bs @ replicate (min n (length bs)) 0))"

text \<open>
  \<^verbatim>\<open>shuffle_epi32\<close> and \<^verbatim>\<open>unpacklo_epi32\<close> are used by the kernels on the 128-bit tier
  only, where a register has four lanes.
\<close>

definition shuffle_epi32 :: "vi \<Rightarrow> nat \<Rightarrow> vi" where
  "shuffle_epi32 a imm8 =
     [a ! (imm8 mod 4), a ! (imm8 div 4 mod 4), a ! (imm8 div 16 mod 4), a ! (imm8 div 64 mod 4)]"

definition unpacklo_epi32 :: "vi \<Rightarrow> vi \<Rightarrow> vi" where
  "unpacklo_epi32 a b = [a ! 0, b ! 0, a ! 1, b ! 1]"

section \<open>Binary floating point\<close>

text \<open>
  A float lane is its IEEE 754 bit pattern: one sign bit, \<open>ew\<close> exponent bits and \<open>mw\<close>
  fraction bits (\<open>8\<close> and \<open>23\<close> for \<^verbatim>\<open>float\<close>, \<open>11\<close> and \<open>52\<close> for \<^verbatim>\<open>double\<close>). Every finite
  value is an integer multiple of the smallest subnormal \<open>2\<^sup>-\<^sup>u\<close>, where
  \<open>u = 2\<^bsup>ew-1\<^esup> + mw - 2\<close>; \<open>fp_mag\<close> is that multiple, so the arithmetic below is integer
  arithmetic. The instructions run under the default control word: round to nearest, ties
  to even, no flush to zero, all exceptions masked.
\<close>

definition fp_sign :: "nat \<Rightarrow> nat \<Rightarrow> 'a::len word \<Rightarrow> bool" where
  "fp_sign ew mw b = bit b (ew + mw)"

definition fp_expo :: "nat \<Rightarrow> nat \<Rightarrow> 'a::len word \<Rightarrow> nat" where
  "fp_expo ew mw b = unat (take_bit ew (drop_bit mw b))"

definition fp_mant :: "nat \<Rightarrow> 'a::len word \<Rightarrow> nat" where
  "fp_mant mw b = unat (take_bit mw b)"

definition fp_is_nan :: "nat \<Rightarrow> nat \<Rightarrow> 'a::len word \<Rightarrow> bool" where
  "fp_is_nan ew mw b \<longleftrightarrow> fp_expo ew mw b = 2 ^ ew - 1 \<and> fp_mant mw b \<noteq> 0"

definition fp_is_inf :: "nat \<Rightarrow> nat \<Rightarrow> 'a::len word \<Rightarrow> bool" where
  "fp_is_inf ew mw b \<longleftrightarrow> fp_expo ew mw b = 2 ^ ew - 1 \<and> fp_mant mw b = 0"

definition fp_is_finite :: "nat \<Rightarrow> nat \<Rightarrow> 'a::len word \<Rightarrow> bool" where
  "fp_is_finite ew mw b \<longleftrightarrow> fp_expo ew mw b < 2 ^ ew - 1"

text \<open>
  The magnitude in units of the smallest subnormal. On an infinity the same formula gives
  a number above every finite magnitude, so \<open>fp_ival\<close> orders all lanes that are not NaN.
\<close>

definition fp_mag :: "nat \<Rightarrow> nat \<Rightarrow> 'a::len word \<Rightarrow> nat" where
  "fp_mag ew mw b =
     (if fp_expo ew mw b = 0 then fp_mant mw b
      else (2 ^ mw + fp_mant mw b) * 2 ^ (fp_expo ew mw b - 1))"

definition fp_ival :: "nat \<Rightarrow> nat \<Rightarrow> 'a::len word \<Rightarrow> int" where
  "fp_ival ew mw b = (if fp_sign ew mw b then - int (fp_mag ew mw b) else int (fp_mag ew mw b))"

definition fp_unit :: "nat \<Rightarrow> nat \<Rightarrow> nat" where
  "fp_unit ew mw = 2 ^ (ew - 1) + mw - 2"

definition fp_valof :: "nat \<Rightarrow> nat \<Rightarrow> 'a::len word \<Rightarrow> rat" where
  "fp_valof ew mw b = of_int (fp_ival ew mw b) / 2 ^ fp_unit ew mw"

definition fp_bits :: "nat \<Rightarrow> nat \<Rightarrow> bool \<Rightarrow> nat \<Rightarrow> nat \<Rightarrow> 'a::len word" where
  "fp_bits ew mw s e m =
     (if s then push_bit (ew + mw) 1 else 0) OR push_bit mw (of_nat e) OR of_nat m"

definition fp_zero :: "nat \<Rightarrow> nat \<Rightarrow> bool \<Rightarrow> 'a::len word" where
  "fp_zero ew mw s = fp_bits ew mw s 0 0"

definition fp_inf :: "nat \<Rightarrow> nat \<Rightarrow> bool \<Rightarrow> 'a::len word" where
  "fp_inf ew mw s = fp_bits ew mw s (2 ^ ew - 1) 0"

definition fp_default_nan :: "nat \<Rightarrow> nat \<Rightarrow> 'a::len word" where
  "fp_default_nan ew mw = fp_bits ew mw True (2 ^ ew - 1) (2 ^ (mw - 1))"

definition fp_quiet :: "nat \<Rightarrow> 'a::len word \<Rightarrow> 'a word" where
  "fp_quiet mw b = b OR push_bit (mw - 1) 1"

definition fp_neg :: "nat \<Rightarrow> nat \<Rightarrow> 'a::len word \<Rightarrow> 'a word" where
  "fp_neg ew mw b = b XOR push_bit (ew + mw) 1"

text \<open>
  Rounding to nearest, ties to even: \<open>rne_div n d\<close> is the integer nearest to \<open>n / d\<close>.
  \<open>fp_round_mag mw n d\<close> rounds \<open>n / d\<close> units to \<open>mw + 1\<close> significant bits, and
  \<open>fp_enc\<close> packs a rounded magnitude, giving an infinity when the exponent overflows.
\<close>

definition rne_div :: "nat \<Rightarrow> nat \<Rightarrow> nat" where
  "rne_div n d =
     (let q = n div d; r = n mod d in
      if 2 * r < d then q
      else if d < 2 * r then q + 1
      else if even q then q else q + 1)"

definition fp_round_mag :: "nat \<Rightarrow> nat \<Rightarrow> nat \<Rightarrow> nat" where
  "fp_round_mag mw n d =
     (let k = floorlog 2 (n div d) - (mw + 1) in rne_div n (d * 2 ^ k) * 2 ^ k)"

definition fp_enc :: "nat \<Rightarrow> nat \<Rightarrow> bool \<Rightarrow> nat \<Rightarrow> 'a::len word" where
  "fp_enc ew mw s i =
     (if i < 2 ^ mw then fp_bits ew mw s 0 i
      else let k = floorlog 2 i - (mw + 1) in
        if 2 ^ ew - 1 \<le> k + 1 then fp_inf ew mw s
        else fp_bits ew mw s (k + 1) (i div 2 ^ k - 2 ^ mw))"

definition fp_round :: "nat \<Rightarrow> nat \<Rightarrow> bool \<Rightarrow> nat \<Rightarrow> nat \<Rightarrow> 'a::len word" where
  "fp_round ew mw s n d = fp_enc ew mw s (fp_round_mag mw n d)"

definition fp_mul :: "nat \<Rightarrow> nat \<Rightarrow> 'a::len word \<Rightarrow> 'a word \<Rightarrow> 'a word" where
  "fp_mul ew mw a b =
     (if fp_is_nan ew mw a then fp_quiet mw a
      else if fp_is_nan ew mw b then fp_quiet mw b
      else if (fp_is_inf ew mw a \<and> fp_mag ew mw b = 0) \<or> (fp_mag ew mw a = 0 \<and> fp_is_inf ew mw b)
        then fp_default_nan ew mw
      else if fp_is_inf ew mw a \<or> fp_is_inf ew mw b
        then fp_inf ew mw (fp_sign ew mw a \<noteq> fp_sign ew mw b)
      else fp_round ew mw (fp_sign ew mw a \<noteq> fp_sign ew mw b)
             (fp_mag ew mw a * fp_mag ew mw b) (2 ^ fp_unit ew mw))"

definition fp_add :: "nat \<Rightarrow> nat \<Rightarrow> 'a::len word \<Rightarrow> 'a word \<Rightarrow> 'a word" where
  "fp_add ew mw a b =
     (if fp_is_nan ew mw a then fp_quiet mw a
      else if fp_is_nan ew mw b then fp_quiet mw b
      else if fp_is_inf ew mw a
        then (if fp_is_inf ew mw b \<and> fp_sign ew mw a \<noteq> fp_sign ew mw b
              then fp_default_nan ew mw else a)
      else if fp_is_inf ew mw b then b
      else let s = fp_ival ew mw a + fp_ival ew mw b in
        if s = 0 then fp_zero ew mw (fp_sign ew mw a \<and> fp_sign ew mw b)
        else fp_round ew mw (s < 0) (nat \<bar>s\<bar>) 1)"

definition fp_sub :: "nat \<Rightarrow> nat \<Rightarrow> 'a::len word \<Rightarrow> 'a word \<Rightarrow> 'a word" where
  "fp_sub ew mw a b =
     (if fp_is_nan ew mw a then fp_quiet mw a
      else if fp_is_nan ew mw b then fp_quiet mw b
      else fp_add ew mw a (fp_neg ew mw b))"

definition fp_div :: "nat \<Rightarrow> nat \<Rightarrow> 'a::len word \<Rightarrow> 'a word \<Rightarrow> 'a word" where
  "fp_div ew mw a b =
     (if fp_is_nan ew mw a then fp_quiet mw a
      else if fp_is_nan ew mw b then fp_quiet mw b
      else if fp_is_inf ew mw a
        then (if fp_is_inf ew mw b then fp_default_nan ew mw
              else fp_inf ew mw (fp_sign ew mw a \<noteq> fp_sign ew mw b))
      else if fp_is_inf ew mw b then fp_zero ew mw (fp_sign ew mw a \<noteq> fp_sign ew mw b)
      else if fp_mag ew mw b = 0
        then (if fp_mag ew mw a = 0 then fp_default_nan ew mw
              else fp_inf ew mw (fp_sign ew mw a \<noteq> fp_sign ew mw b))
      else fp_round ew mw (fp_sign ew mw a \<noteq> fp_sign ew mw b)
             (fp_mag ew mw a * 2 ^ fp_unit ew mw) (fp_mag ew mw b))"

text \<open>Ordered comparisons: false as soon as one side is a NaN; the two zeros are equal.\<close>

definition fp_lt :: "nat \<Rightarrow> nat \<Rightarrow> 'a::len word \<Rightarrow> 'a word \<Rightarrow> bool" where
  "fp_lt ew mw a b \<longleftrightarrow>
     \<not> fp_is_nan ew mw a \<and> \<not> fp_is_nan ew mw b \<and> fp_ival ew mw a < fp_ival ew mw b"

definition fp_eq :: "nat \<Rightarrow> nat \<Rightarrow> 'a::len word \<Rightarrow> 'a word \<Rightarrow> bool" where
  "fp_eq ew mw a b \<longleftrightarrow>
     \<not> fp_is_nan ew mw a \<and> \<not> fp_is_nan ew mw b \<and> fp_ival ew mw a = fp_ival ew mw b"

text \<open>
  The \<^verbatim>\<open>MAX\<close> and \<^verbatim>\<open>MIN\<close> instructions return the second operand unless the first one
  compares strictly greater (smaller): so they do on a NaN and on two zeros.
\<close>

definition fp_max :: "nat \<Rightarrow> nat \<Rightarrow> 'a::len word \<Rightarrow> 'a word \<Rightarrow> 'a word" where
  "fp_max ew mw a b = (if fp_lt ew mw b a then a else b)"

definition fp_min :: "nat \<Rightarrow> nat \<Rightarrow> 'a::len word \<Rightarrow> 'a word \<Rightarrow> 'a word" where
  "fp_min ew mw a b = (if fp_lt ew mw a b then a else b)"

subsection \<open>The two formats\<close>

abbreviation f32_sign :: "f32 \<Rightarrow> bool" where "f32_sign \<equiv> fp_sign 8 23"
abbreviation f32_mag :: "f32 \<Rightarrow> nat" where "f32_mag \<equiv> fp_mag 8 23"
abbreviation f32_ival :: "f32 \<Rightarrow> int" where "f32_ival \<equiv> fp_ival 8 23"
abbreviation f32_valof :: "f32 \<Rightarrow> rat" where "f32_valof \<equiv> fp_valof 8 23"
abbreviation f32_is_nan :: "f32 \<Rightarrow> bool" where "f32_is_nan \<equiv> fp_is_nan 8 23"
abbreviation f32_is_inf :: "f32 \<Rightarrow> bool" where "f32_is_inf \<equiv> fp_is_inf 8 23"
abbreviation f32_is_finite :: "f32 \<Rightarrow> bool" where "f32_is_finite \<equiv> fp_is_finite 8 23"
abbreviation f32_round :: "bool \<Rightarrow> nat \<Rightarrow> nat \<Rightarrow> f32" where "f32_round \<equiv> fp_round 8 23"
abbreviation f32_mul :: "f32 \<Rightarrow> f32 \<Rightarrow> f32" where "f32_mul \<equiv> fp_mul 8 23"
abbreviation f32_add :: "f32 \<Rightarrow> f32 \<Rightarrow> f32" where "f32_add \<equiv> fp_add 8 23"
abbreviation f32_sub :: "f32 \<Rightarrow> f32 \<Rightarrow> f32" where "f32_sub \<equiv> fp_sub 8 23"
abbreviation f32_div :: "f32 \<Rightarrow> f32 \<Rightarrow> f32" where "f32_div \<equiv> fp_div 8 23"
abbreviation f32_lt :: "f32 \<Rightarrow> f32 \<Rightarrow> bool" where "f32_lt \<equiv> fp_lt 8 23"
abbreviation f32_eq :: "f32 \<Rightarrow> f32 \<Rightarrow> bool" where "f32_eq \<equiv> fp_eq 8 23"
abbreviation f32_max :: "f32 \<Rightarrow> f32 \<Rightarrow> f32" where "f32_max \<equiv> fp_max 8 23"
abbreviation f32_min :: "f32 \<Rightarrow> f32 \<Rightarrow> f32" where "f32_min \<equiv> fp_min 8 23"

abbreviation f64_ival :: "f64 \<Rightarrow> int" where "f64_ival \<equiv> fp_ival 11 52"
abbreviation f64_valof :: "f64 \<Rightarrow> rat" where "f64_valof \<equiv> fp_valof 11 52"
abbreviation f64_is_nan :: "f64 \<Rightarrow> bool" where "f64_is_nan \<equiv> fp_is_nan 11 52"
abbreviation f64_mul :: "f64 \<Rightarrow> f64 \<Rightarrow> f64" where "f64_mul \<equiv> fp_mul 11 52"
abbreviation f64_add :: "f64 \<Rightarrow> f64 \<Rightarrow> f64" where "f64_add \<equiv> fp_add 11 52"
abbreviation f64_lt :: "f64 \<Rightarrow> f64 \<Rightarrow> bool" where "f64_lt \<equiv> fp_lt 11 52"
abbreviation f64_max :: "f64 \<Rightarrow> f64 \<Rightarrow> f64" where "f64_max \<equiv> fp_max 11 52"

text \<open>
  A magnitude is on the \<^verbatim>\<open>float\<close> grid when it is a multiple of the unit in its last place,
  that is, when it has at most 24 significant bits: the magnitudes of the finite floats are
  the grid points below \<open>2\<^sup>2\<^sup>7\<^sup>7\<close>.
\<close>

definition f32_grid :: "nat \<Rightarrow> bool" where
  "f32_grid i \<longleftrightarrow> 2 ^ (floorlog 2 i - 24) dvd i"

text \<open>Conversions between \<^verbatim>\<open>int\<close> and \<^verbatim>\<open>float\<close>, and rounding to an integral float.\<close>

definition f32_of_int :: "int \<Rightarrow> f32" where
  "f32_of_int i = f32_round (i < 0) (nat \<bar>i\<bar> * 2 ^ 149) 1"

definition int_indefinite :: "32 word" where
  "int_indefinite = 0x80000000"

definition int32_of :: "int \<Rightarrow> 32 word" where
  "int32_of v = (if - (2 ^ 31) \<le> v \<and> v < 2 ^ 31 then word_of_int v else int_indefinite)"

definition f32_to_int_rne :: "f32 \<Rightarrow> 32 word" where
  "f32_to_int_rne b =
     (if \<not> f32_is_finite b then int_indefinite
      else let r = int (rne_div (f32_mag b) (2 ^ 149)) in int32_of (if f32_sign b then - r else r))"

definition f32_to_int_trunc :: "f32 \<Rightarrow> 32 word" where
  "f32_to_int_trunc b =
     (if \<not> f32_is_finite b then int_indefinite
      else let r = int (f32_mag b div 2 ^ 149) in int32_of (if f32_sign b then - r else r))"

definition f32_floor :: "f32 \<Rightarrow> f32" where
  "f32_floor b =
     (if f32_is_nan b then fp_quiet 23 b
      else if f32_is_inf b then b
      else let q = f32_ival b div 2 ^ 149 in
        if q * 2 ^ 149 = f32_ival b then b else f32_of_int q)"

section \<open>Floating-point intrinsics (intrinsics.h)\<close>

definition set1_ps :: "CPUType \<Rightarrow> f32 \<Rightarrow> vf" where
  "set1_ps t v = replicate (lanes t) v"

definition setzero_ps :: "CPUType \<Rightarrow> vf" where
  "setzero_ps t = replicate (lanes t) 0"

definition setzero_pd :: "CPUType \<Rightarrow> vd" where
  "setzero_pd t = replicate (lanes t div 2) 0"

definition add_ps :: "vf \<Rightarrow> vf \<Rightarrow> vf" where
  "add_ps = map2 f32_add"

definition sub_ps :: "vf \<Rightarrow> vf \<Rightarrow> vf" where
  "sub_ps = map2 f32_sub"

definition mul_ps :: "vf \<Rightarrow> vf \<Rightarrow> vf" where
  "mul_ps = map2 f32_mul"

definition div_ps :: "vf \<Rightarrow> vf \<Rightarrow> vf" where
  "div_ps = map2 f32_div"

definition max_ps :: "vf \<Rightarrow> vf \<Rightarrow> vf" where
  "max_ps = map2 f32_max"

definition min_ps :: "vf \<Rightarrow> vf \<Rightarrow> vf" where
  "min_ps = map2 f32_min"

definition and_ps :: "vf \<Rightarrow> vf \<Rightarrow> vf" where
  "and_ps = map2 (AND)"

definition add_pd :: "vd \<Rightarrow> vd \<Rightarrow> vd" where
  "add_pd = map2 f64_add"

definition mul_pd :: "vd \<Rightarrow> vd \<Rightarrow> vd" where
  "mul_pd = map2 f64_mul"

definition max_pd :: "vd \<Rightarrow> vd \<Rightarrow> vd" where
  "max_pd = map2 f64_max"

definition cvtepi32_ps :: "vi \<Rightarrow> vf" where
  "cvtepi32_ps = map (\<lambda>n. f32_of_int (sint n))"

definition cvtps_epi32 :: "vf \<Rightarrow> vi" where
  "cvtps_epi32 = map f32_to_int_rne"

definition cvttps_epi32 :: "vf \<Rightarrow> vi" where
  "cvttps_epi32 = map f32_to_int_trunc"

text \<open>
  Comparisons. The 128-bit and 256-bit ones give a register whose lanes are all ones or
  all zeros: \<^verbatim>\<open>_mm_cmplt_ps\<close> is the ordered less-than, \<^verbatim>\<open>_mm_cmpneq_ps\<close> the unordered
  not-equal (true on a NaN). The 512-bit ones give a mask register, one bit per lane, with
  the predicate as an argument.
\<close>

definition lane_mask :: "bool \<Rightarrow> f32" where
  "lane_mask p = (if p then - 1 else 0)"

definition mm_cmplt_ps :: "vf \<Rightarrow> vf \<Rightarrow> vf" where
  "mm_cmplt_ps = map2 (\<lambda>x y. lane_mask (f32_lt x y))"

definition mm_cmpneq_ps :: "vf \<Rightarrow> vf \<Rightarrow> vf" where
  "mm_cmpneq_ps = map2 (\<lambda>x y. lane_mask (\<not> f32_eq x y))"

datatype cmp_predicate = CMP_LT_OS | CMP_LT_OQ | CMP_NEQ_OQ

fun cmp_lane :: "cmp_predicate \<Rightarrow> f32 \<Rightarrow> f32 \<Rightarrow> bool" where
  "cmp_lane CMP_LT_OS x y = f32_lt x y"
| "cmp_lane CMP_LT_OQ x y = f32_lt x y"
| "cmp_lane CMP_NEQ_OQ x y = (\<not> f32_is_nan x \<and> \<not> f32_is_nan y \<and> f32_ival x \<noteq> f32_ival y)"

definition mm256_cmp_ps :: "vf \<Rightarrow> vf \<Rightarrow> cmp_predicate \<Rightarrow> vf" where
  "mm256_cmp_ps a b p = map2 (\<lambda>x y. lane_mask (cmp_lane p x y)) a b"

definition mm512_cmp_ps_mask :: "vf \<Rightarrow> vf \<Rightarrow> cmp_predicate \<Rightarrow> bool list" where
  "mm512_cmp_ps_mask a b p = map2 (cmp_lane p) a b"

definition mm512_kand :: "bool list \<Rightarrow> bool list \<Rightarrow> bool list" where
  "mm512_kand = map2 (\<and>)"

definition mm512_mask_blend_ps :: "bool list \<Rightarrow> vf \<Rightarrow> vf \<Rightarrow> vf" where
  "mm512_mask_blend_ps k a b = map2 (\<lambda>m (x, y). if m then y else x) k (zip a b)"

definition mm256_blendv_ps :: "vf \<Rightarrow> vf \<Rightarrow> vf \<Rightarrow> vf" where
  "mm256_blendv_ps a b k = map2 (\<lambda>m (x, y). if bit m 31 then y else x) k (zip a b)"

definition mm256_floor_ps :: "vf \<Rightarrow> vf" where
  "mm256_floor_ps = map f32_floor"

text \<open>
  \<^verbatim>\<open>i32gather_ps<4>(base_addr, vindex)\<close> loads, for every lane, the float at
  \<^verbatim>\<open>base_addr[vindex[i]]\<close>, the index read as a signed integer. Here \<open>base_addr\<close> points
  \<open>base\<close> elements into \<open>table\<close>; a load outside the table is a read of memory the program
  does not own, and the gather then has no value.
\<close>

definition gather_lane :: "f32 list \<Rightarrow> nat \<Rightarrow> 32 word \<Rightarrow> f32 option" where
  "gather_lane table base i =
     (let j = int base + sint i in
      if 0 \<le> j \<and> j < int (length table) then Some (table ! nat j) else None)"

definition i32gather_ps :: "f32 list \<Rightarrow> nat \<Rightarrow> vi \<Rightarrow> vf option" where
  "i32gather_ps table base vindex = those (map (gather_lane table base) vindex)"

section \<open>Kernels (kernels/implementations.inl)\<close>

datatype failure = AssertionFailed | UndefinedBehaviour

text \<open>
  Memory is a list of elements. A pointer is the index of an element, counted from an
  address that is aligned for every register, so that the address of the element at index
  \<open>p\<close> is \<open>p\<close> times the size of an element. \<^verbatim>\<open>write\<close> and \<^verbatim>\<open>add_bias\<close> reach memory
  through a dereferenced pointer to a register, \<^verbatim>\<open>*reinterpret_cast<vf*>(output + offset)\<close>:
  the access of a register of \<open>n\<close> elements at index \<open>p\<close> is aligned when \<open>n\<close> divides \<open>p\<close>.
  An access that is not aligned, or that leaves the list, is undefined behaviour (the
  aligned move instruction faults). \<^verbatim>\<open>Index\<close> is declared in \<^verbatim>\<open>types.h\<close>, which is not
  part of the sources at hand: it is taken to be an unsigned machine integer of any width.
\<close>

definition aligned :: "nat \<Rightarrow> nat \<Rightarrow> bool" where
  "aligned n p \<longleftrightarrow> n dvd p"

definition store :: "'e list \<Rightarrow> nat \<Rightarrow> 'e list \<Rightarrow> failure + 'e list" where
  "store input p mem =
     (if aligned (length input) p \<and> p + length input \<le> length mem
      then Inr (take p mem @ input @ drop (p + length input) mem)
      else Inl UndefinedBehaviour)"

definition load :: "nat \<Rightarrow> nat \<Rightarrow> 'e list \<Rightarrow> failure + 'e list" where
  "load n p mem =
     (if aligned n p \<and> p + n \<le> length mem
      then Inr (take n (drop p mem))
      else Inl UndefinedBehaviour)"

definition write_int8 :: "vi \<Rightarrow> nat \<Rightarrow> 'i::len word \<Rightarrow> 8 word list \<Rightarrow> failure + 8 word list" where
  "write_int8 input output offset mem = store (int8_lanes input) (output + unat offset) mem"

definition write_int16 :: "vi \<Rightarrow> nat \<Rightarrow> 'i::len word \<Rightarrow> 16 word list \<Rightarrow> failure + 16 word list" where
  "write_int16 input output offset mem = store (int16_lanes input) (output + unat offset) mem"

definition write_int :: "vi \<Rightarrow> nat \<Rightarrow> 'i::len word \<Rightarrow> 32 word list \<Rightarrow> failure + 32 word list" where
  "write_int input output offset mem = store input (output + unat offset) mem"

definition write_float :: "vf \<Rightarrow> nat \<Rightarrow> 'i::len word \<Rightarrow> f32 list \<Rightarrow> failure + f32 list" where
  "write_float input output offset mem = store input (output + unat offset) mem"

definition write_double :: "vd \<Rightarrow> nat \<Rightarrow> 'i::len word \<Rightarrow> f64 list \<Rightarrow> failure + f64 list" where
  "write_double input output offset mem = store input (output + unat offset) mem"


definition unquantize :: "vi \<Rightarrow> vf \<Rightarrow> vf" where
  "unquantize input unquant_mult = mul_ps (cvtepi32_ps input) unquant_mult"

definition add_bias_float :: "vf \<Rightarrow> nat \<Rightarrow> 'i::len word \<Rightarrow> f32 list \<Rightarrow> failure + vf" where
  "add_bias_float input bias_addr bias_offset mem =
     (case load (length input) (bias_addr + unat bias_offset) mem of
        Inl e \<Rightarrow> Inl e
      | Inr bias_term \<Rightarrow> Inr (add_ps input bias_term))"

definition relu_int8 :: "CPUType \<Rightarrow> vi \<Rightarrow> vi" where
  "relu_int8 t input =
     (let vconst_zero = set1_epi8 t 0 in
      case t of
        SSE2 \<Rightarrow> and_si input (mm_cmplt_epi8 vconst_zero input)
      | AVX2 \<Rightarrow> max_epi8 input vconst_zero
      | AVX512BW \<Rightarrow> max_epi8 input vconst_zero)"

definition relu_int16 :: "CPUType \<Rightarrow> vi \<Rightarrow> vi" where
  "relu_int16 t input = (let vconst_zero = set1_epi16 t 0 in max_epi16 input vconst_zero)"

definition relu_int :: "CPUType \<Rightarrow> vi \<Rightarrow> vi" where
  "relu_int t input =
     (let vconst_zero = set1_epi32 t 0 in
      case t of
        SSE2 \<Rightarrow> and_si input (mm_cmplt_epi32 vconst_zero input)
      | AVX2 \<Rightarrow> max_epi32 input vconst_zero
      | AVX512BW \<Rightarrow> max_epi32 input vconst_zero)"

definition relu_float :: "CPUType \<Rightarrow> vf \<Rightarrow> vf" where
  "relu_float t input = (let vconst_zero = setzero_ps t in max_ps input vconst_zero)"

definition relu_double :: "CPUType \<Rightarrow> vd \<Rightarrow> vd" where
  "relu_double t input = (let vconst_zero = setzero_pd t in max_pd input vconst_zero)"

definition multiply_int8 :: "vi \<Rightarrow> vi \<Rightarrow> vi" where
  "multiply_int8 a b =
     (let even = mullo_epi16 a b;
          odd = mullo_epi16 (srli_epi16 a 8) (srli_epi16 b 8)
      in or_si (slli_epi16 odd 8) (srli_epi16 (slli_epi16 even 8) 8))"

definition multiply_int16 :: "vi \<Rightarrow> vi \<Rightarrow> vi" where
  "multiply_int16 a b = mullo_epi16 a b"

definition multiply_int :: "CPUType \<Rightarrow> vi \<Rightarrow> vi \<Rightarrow> vi" where
  "multiply_int t a b =
     (case t of
        SSE2 \<Rightarrow>
          (let even = mul_epu32 a b;
               odd = mul_epu32 (mm_srli_si128 a 4) (mm_srli_si128 b 4)
           in unpacklo_epi32 (shuffle_epi32 even 0x8) (shuffle_epi32 odd 0x8))
      | AVX2 \<Rightarrow> mullo_epi32 a b
      | AVX512BW \<Rightarrow> mullo_epi32 a b)"

definition multiply_float :: "vf \<Rightarrow> vf \<Rightarrow> vf" where
  "multiply_float a b = mul_ps a b"

definition multiply_double :: "vd \<Rightarrow> vd \<Rightarrow> vd" where
  "multiply_double a b = mul_pd a b"

definition f32_1 :: f32 where
  "f32_1 = 0x3F800000"

text \<open>The float nearest to one tenth, which is what the literal \<^verbatim>\<open>0.1f\<close> denotes.\<close>

definition f32_tenth :: f32 where
  "f32_tenth = f32_round False (2 ^ 149) 10"

definition floor_ps :: "CPUType \<Rightarrow> vf \<Rightarrow> vf" where
  "floor_ps t input =
     (case t of
        SSE2 \<Rightarrow>
          (let vconst_zero = setzero_ps t;
               vconst_one = set1_ps t f32_1;
               result = cvtepi32_ps (cvttps_epi32 input);
               negatives = mm_cmplt_ps input vconst_zero;
               nonintegers = mm_cmpneq_ps input result
           in sub_ps result (and_ps vconst_one (and_ps negatives nonintegers)))
      | AVX2 \<Rightarrow> mm256_floor_ps input
      | AVX512BW \<Rightarrow>
          (let vconst_zero = setzero_ps t;
               vconst_one = set1_ps t f32_1;
               result = cvtepi32_ps (cvttps_epi32 input);
               negatives = mm512_cmp_ps_mask input vconst_zero CMP_LT_OQ;
               nonintegers = mm512_cmp_ps_mask input result CMP_NEQ_OQ
           in mm512_mask_blend_ps (mm512_kand negatives nonintegers) result
                (sub_ps result vconst_one)))"

text \<open>
  Modelled from the spec: \<^verbatim>\<open>factorial\<close> of \<^verbatim>\<open>utils.h\<close>, which is not part of the sources
  at hand; the spec calls the coefficients the reciprocal factorials \<open>1/7!\<close> to \<open>1/1!\<close>.
\<close>

definition factorial :: "nat \<Rightarrow> int" where
  "factorial n = int (fact n)"

definition EXP_MIN :: int where "EXP_MIN = - 20"
definition EXP_MAX :: int where "EXP_MAX = 20"

definition dividers :: "CPUType \<Rightarrow> vf list" where
  "dividers t =
     [set1_ps t (f32_div f32_1 (f32_of_int (factorial 7))),
      set1_ps t (f32_div f32_1 (f32_of_int (factorial 6))),
      set1_ps t (f32_div f32_1 (f32_of_int (factorial 5))),
      set1_ps t (f32_div f32_1 (f32_of_int (factorial 4))),
      set1_ps t (f32_div f32_1 (f32_of_int (factorial 3))),
      set1_ps t (f32_div f32_1 (f32_of_int (factorial 2))),
      set1_ps t (f32_div f32_1 (f32_of_int (factorial 1)))]"

text \<open>
  The polynomial of \<^verbatim>\<open>exp_approx_taylor\<close>, after the clamp and the split of \<open>x\<close> into
  \<open>a = floor x\<close> and \<open>xa = x - a\<close>.
\<close>

definition taylor_poly :: "CPUType \<Rightarrow> vf \<Rightarrow> vf" where
  "taylor_poly t xa =
     (let const_one = set1_ps t f32_1;
          result = mul_ps (dividers t ! 0) xa;
          result = add_ps result (dividers t ! 1);
          result = mul_ps result xa;
          result = add_ps result (dividers t ! 2);
          result = mul_ps result xa;
          result = add_ps result (dividers t ! 3);
          result = mul_ps result xa;
          result = add_ps result (dividers t ! 4);
          result = mul_ps result xa;
          result = add_ps result (dividers t ! 5);
          result = mul_ps result xa;
          result = add_ps result (dividers t ! 6);
          result = mul_ps result xa
      in add_ps result const_one)"

definition exp_clamp :: "CPUType \<Rightarrow> vf \<Rightarrow> vf" where
  "exp_clamp t x =
     (let const_min_x = set1_ps t (f32_of_int EXP_MIN);
          const_max_x = set1_ps t (f32_of_int EXP_MAX);
          x = max_ps x const_min_x
      in min_ps x const_max_x)"

text \<open>
  \<^verbatim>\<open>exp_approx_taylor\<close>. The table \<^verbatim>\<open>EXP_LOOKUP\<close> is filled from \<^verbatim>\<open>expi\<close> of \<^verbatim>\<open>utils.h\<close>,
  which is not part of the sources at hand: it is an argument. \<open>ndebug\<close> says whether
  assertions are compiled out; without them the 128-bit body is empty and control leaves a
  function that must return a value.
\<close>

definition exp_approx_taylor :: "bool \<Rightarrow> f32 list \<Rightarrow> CPUType \<Rightarrow> vf \<Rightarrow> failure + vf" where
  "exp_approx_taylor ndebug EXP_LOOKUP t x =
     (if t = SSE2 then Inl (if ndebug then UndefinedBehaviour else AssertionFailed)
      else
        let x = exp_clamp t x;
            a = floor_ps t x;
            xa = sub_ps x a;
            result = taylor_poly t xa
        in case i32gather_ps EXP_LOOKUP (nat EXP_MAX) (cvtps_epi32 a) of
             None \<Rightarrow> Inl UndefinedBehaviour
           | Some ea \<Rightarrow> Inr (mul_ps ea result))"

text \<open>
  \<^verbatim>\<open>sigmoid\<close> and \<^verbatim>\<open>tanh\<close>. The reciprocal approximations \<^verbatim>\<open>_mm256_rcp_ps\<close> and
  \<^verbatim>\<open>_mm512_rcp14_ps\<close> are specified up to a relative error only; \<open>rcp\<close> stands for the
  lane function of the processor at hand.
\<close>

definition sigmoid :: "bool \<Rightarrow> f32 list \<Rightarrow> (f32 \<Rightarrow> f32) \<Rightarrow> CPUType \<Rightarrow> vf \<Rightarrow> failure + vf" where
  "sigmoid ndebug EXP_LOOKUP rcp t input =
     (if t = SSE2 then Inl (if ndebug then UndefinedBehaviour else AssertionFailed)
      else
        let vconst_zero = setzero_ps t;
            vconst_one = set1_ps t f32_1;
            x = input;
            minus_x = sub_ps vconst_zero x
        in case exp_approx_taylor ndebug EXP_LOOKUP t x of
             Inl e \<Rightarrow> Inl e
           | Inr e_x \<Rightarrow>
              (case exp_approx_taylor ndebug EXP_LOOKUP t minus_x of
                 Inl e \<Rightarrow> Inl e
               | Inr e_minus_x \<Rightarrow>
                  (let sigmoid_case1 = map rcp (add_ps vconst_one e_minus_x);
                       sigmoid_case2 = mul_ps e_x (map rcp (add_ps vconst_one e_x))
                   in if t = AVX2
                      then Inr (mm256_blendv_ps sigmoid_case1 sigmoid_case2
                                  (mm256_cmp_ps vconst_zero x CMP_LT_OS))
                      else Inr (mm512_mask_blend_ps (mm512_cmp_ps_mask vconst_zero x CMP_LT_OS)
                                  sigmoid_case1 sigmoid_case2))))"

definition tanh_ps :: "bool \<Rightarrow> f32 list \<Rightarrow> CPUType \<Rightarrow> vf \<Rightarrow> failure + vf" where
  "tanh_ps ndebug EXP_LOOKUP t input =
     (if t = SSE2 then Inl (if ndebug then UndefinedBehaviour else AssertionFailed)
      else
        let vconst_zero = setzero_ps t in
        case exp_approx_taylor ndebug EXP_LOOKUP t input of
          Inl e \<Rightarrow> Inl e
        | Inr e_x \<Rightarrow>
           (case exp_approx_taylor ndebug EXP_LOOKUP t (sub_ps vconst_zero input) of
              Inl e \<Rightarrow> Inl e
            | Inr e_minus_x \<Rightarrow> Inr (div_ps (sub_ps e_x e_minus_x) (add_ps e_x e_minus_x))))"

subsection \<open>The float kernels, lane by lane\<close>

text \<open>
  The float kernels act on every lane alike. These are the functions they compute in one
  lane; the lemmas of section \<open>Lanes of the float kernels\<close> derive them from the
  definitions above.
\<close>

definition floor_lane :: "CPUType \<Rightarrow> f32 \<Rightarrow> f32" where
  "floor_lane t v =
     (case t of
        SSE2 \<Rightarrow>
          (let result = f32_of_int (sint (f32_to_int_trunc v)) in
           f32_sub result (f32_1 AND (lane_mask (f32_lt v 0) AND lane_mask (\<not> f32_eq v result))))
      | AVX2 \<Rightarrow> f32_floor v
      | AVX512BW \<Rightarrow>
          (let result = f32_of_int (sint (f32_to_int_trunc v)) in
           if f32_lt v 0 \<and> cmp_lane CMP_NEQ_OQ v result then f32_sub result f32_1 else result))"

definition clamp_lane :: "f32 \<Rightarrow> f32" where
  "clamp_lane v = f32_min (f32_max v (f32_of_int EXP_MIN)) (f32_of_int EXP_MAX)"

definition divider :: "nat \<Rightarrow> f32" where
  "divider k = f32_div f32_1 (f32_of_int (factorial k))"

fun horner :: "f32 list \<Rightarrow> f32 \<Rightarrow> f32 \<Rightarrow> f32" where
  "horner [] xa acc = acc"
| "horner (c # cs) xa acc = horner cs xa (f32_add (f32_mul acc xa) c)"

definition poly_lane :: "f32 \<Rightarrow> f32" where
  "poly_lane xa =
     horner [divider 6, divider 5, divider 4, divider 3, divider 2, divider 1, f32_1] xa (divider 7)"

definition exp_lane :: "f32 list \<Rightarrow> CPUType \<Rightarrow> f32 \<Rightarrow> f32 option" where
  "exp_lane EXP_LOOKUP t v =
     (let x = clamp_lane v;
          a = floor_lane t x;
          xa = f32_sub x a
      in case gather_lane EXP_LOOKUP (nat EXP_MAX) (f32_to_int_rne a) of
           None \<Rightarrow> None
         | Some ea \<Rightarrow> Some (f32_mul ea (poly_lane xa)))"

section \<open>Callbacks (callbacks/implementations.inl)\<close>

text \<open>
  The callbacks are compiled per tier as well, but their registers are those of the 128-bit
  tier when \<^verbatim>\<open>THIS_IS_SSE2\<close> is defined and those of the 256-bit tier otherwise. The
  configurations and \<^verbatim>\<open>OutputBufferInfo\<close> are declared in headers that are not part of the
  sources at hand; their fields are the ones the callbacks read. A \<^verbatim>\<open>float*\<close> is an index
  into the memory of floats; the window of a callback is aligned when the number of lanes
  of its register divides the index where the window starts.
\<close>

fun callback_lanes :: "CPUType \<Rightarrow> nat" where
  "callback_lanes SSE2 = 4"
| "callback_lanes AVX2 = 8"
| "callback_lanes AVX512BW = 8"

record 'index OutputBufferInfo =
  row_idx :: 'index
  col_idx :: 'index
  rows :: 'index
  cols :: 'index

record UnquantizeAndWrite =
  unquant_mult :: f32
  addr :: nat

record UnquantizeAndAddBiasAndWrite =
  unquant_mult_b :: f32
  bias_addr :: nat
  output_addr :: nat

definition callback_set1_ps :: "CPUType \<Rightarrow> f32 \<Rightarrow> vf" where
  "callback_set1_ps t v = replicate (callback_lanes t) v"


definition CallbackImpl_UnquantizeAndWrite ::
  "CPUType \<Rightarrow> UnquantizeAndWrite \<Rightarrow> vi \<Rightarrow> ('i::len) word OutputBufferInfo \<Rightarrow> f32 list \<Rightarrow> failure + f32 list" where
  "CallbackImpl_UnquantizeAndWrite t config input info mem =
     (let unquant_mult = callback_set1_ps t (unquant_mult config);
          result = unquantize input unquant_mult
      in write_float result (addr config) (row_idx info * cols info + col_idx info) mem)"

definition CallbackImpl_UnquantizeAndAddBiasAndWrite ::
  "CPUType \<Rightarrow> UnquantizeAndAddBiasAndWrite \<Rightarrow> vi \<Rightarrow> ('i::len) word OutputBufferInfo \<Rightarrow> f32 list
     \<Rightarrow> failure + f32 list" where
  "CallbackImpl_UnquantizeAndAddBiasAndWrite t config input info mem =
     (let unquant_mult = callback_set1_ps t (unquant_mult_b config);
          result = unquantize input unquant_mult
      in case add_bias_float result (bias_addr config) (col_idx info) mem of
           Inl e \<Rightarrow> Inl e
         | Inr result \<Rightarrow>
             write_float result (output_addr config) (row_idx info * cols info + col_idx info) mem)"

section \<open>Integer lanes\<close>

subsection \<open>Bytes and halves of a lane\<close>

lemma bit_of_bytes4:
  "bit (of_bytes [a, b, c, d]) n \<longleftrightarrow>
     (n < 8 \<and> bit a n) \<or> (8 \<le> n \<and> n < 16 \<and> bit b (n - 8)) \<or>
     (16 \<le> n \<and> n < 24 \<and> bit c (n - 16)) \<or> (24 \<le> n \<and> n < 32 \<and> bit d (n - 24))"
  by (auto simp: bit_simps dest: bit_imp_le_length)

lemma bit_of_halves2:
  "bit (of_halves [a, b]) n \<longleftrightarrow>
     (n < 16 \<and> bit a n) \<or> (16 \<le> n \<and> n < 32 \<and> bit b (n - 16))"
  by (auto simp: bit_simps dest: bit_imp_le_length)

lemma bytes_of_of_bytes: "bytes_of (of_bytes [a, b, c, d]) = [a, b, c, d]"
  unfolding bytes_of_def
  by (simp del: of_bytes.simps, intro conjI bit_word_eqI;
      simp add: bit_simps bit_of_bytes4 del: of_bytes.simps)

lemma of_bytes_bytes_of: "of_bytes (bytes_of w) = w"
  unfolding bytes_of_def
proof (rule bit_word_eqI)
  fix n assume "n < LENGTH(32)"
  then have n: "n < 32" by simp
  consider "n < 8" | "8 \<le> n" "n < 16" | "16 \<le> n" "n < 24" | "24 \<le> n"
    by linarith
  then show "bit (of_bytes [ucast w, ucast (drop_bit 8 w), ucast (drop_bit 16 w), ucast (drop_bit 24 w)]) n = bit w n"
    using n by cases (auto simp add: bit_of_bytes4 bit_simps simp del: of_bytes.simps)
qed

lemma of_bytes_and:
  "of_bytes [a, b, c, d] AND of_bytes [a', b', c', d'] =
   of_bytes [a AND a', b AND b', c AND c', d AND d']"
  by (rule bit_word_eqI) (auto simp add: bit_and_iff bit_of_bytes4 simp del: of_bytes.simps)

lemma halves_of_of_halves: "halves_of (of_halves [a, b]) = [a, b]"
  unfolding halves_of_def
  by (simp del: of_halves.simps, intro conjI bit_word_eqI;
      simp add: bit_simps bit_of_halves2 del: of_halves.simps)

lemma of_halves_or:
  "of_halves [a, b] OR of_halves [a', b'] = of_halves [a OR a', b OR b']"
  by (rule bit_word_eqI) (auto simp add: bit_or_iff bit_of_halves2 simp del: of_halves.simps)

lemma bytes_of_of_halves:
  "bytes_of (of_halves [h0, h1]) = [ucast h0, ucast (drop_bit 8 h0), ucast h1, ucast (drop_bit 8 h1)]"
  unfolding bytes_of_def
  by (simp del: of_halves.simps, intro conjI bit_word_eqI;
      simp add: bit_simps bit_of_halves2 del: of_halves.simps)

lemma bytes_of_halves_of:
  "bytes_of w = [ucast (ucast w :: 16 word), ucast (drop_bit 8 (ucast w :: 16 word)),
                 ucast (ucast (drop_bit 16 w) :: 16 word), ucast (drop_bit 8 (ucast (drop_bit 16 w) :: 16 word))]"
  unfolding bytes_of_def
  by (simp, intro conjI bit_word_eqI; simp add: bit_simps ac_simps)

subsection \<open>Lane arithmetic\<close>

lemma relu_lane: "b AND cmplt 0 b = smax b 0"
  by (simp add: cmplt_def smax_def)

lemma sint_smax: "sint (smax x y) = max (sint x) (sint y)"
  by (simp add: smax_def max_def)

lemma ucast_mult_16_8: "(ucast (u * v :: 16 word) :: 8 word) = ucast u * ucast v"
proof -
  have "(unat u * unat v mod 65536) mod 256 = (unat u mod 256) * (unat v mod 256) mod 256"
    by (simp add: mod_mod_cancel mod_mult_eq)
  then show ?thesis
    by (simp add: word_unat_eq_iff unsigned_ucast_eq unat_word_ariths take_bit_eq_mod)
qed

lemma ucast_mult_64_32: "(ucast ((ucast a :: 64 word) * ucast b) :: 32 word) = a * b"
proof -
  have "unat a < 4294967296" "unat b < 4294967296"
    using unsigned_less [of a] unsigned_less [of b] by simp_all
  then have "unat a mod 18446744073709551616 = unat a" "unat b mod 18446744073709551616 = unat b"
    by simp_all
  moreover have "(unat a * unat b mod 18446744073709551616) mod 4294967296 = unat a * unat b mod 4294967296"
    by (simp add: mod_mod_cancel)
  ultimately show ?thesis
    by (simp add: word_unat_eq_iff unsigned_ucast_eq unat_word_ariths take_bit_eq_mod)
qed

lemma byte_lo_combine:
  "(ucast (push_bit 8 x OR drop_bit 8 (push_bit 8 y)) :: 8 word) = ucast (y :: 16 word)"
  by (rule bit_word_eqI) (auto simp add: bit_simps)

lemma byte_hi_combine:
  "(ucast (drop_bit 8 (push_bit 8 x OR drop_bit 8 (push_bit 8 y))) :: 8 word) = ucast (x :: 16 word)"
  by (rule bit_word_eqI) (auto simp add: bit_simps)

subsection \<open>Lane-wise kernels on whole registers\<close>

lemma map2_replicate_right: "map2 f xs (replicate (length xs) c) = map (\<lambda>x. f x c) xs"
  by (induction xs) simp_all

lemma map2_replicate_left: "map2 f (replicate (length xs) c) xs = map (f c) xs"
  by (induction xs) simp_all

lemma bytes_of_zero: "bytes_of (of_bytes [0, 0, 0, 0]) = [0, 0, 0, 0]"
  by (rule bytes_of_of_bytes)

lemma relu_int8_lane:
  "x AND of_bytes (map2 cmplt [0, 0, 0, 0] (bytes_of x)) = of_bytes (map2 smax (bytes_of x) [0, 0, 0, 0])"
proof -
  have "x AND of_bytes (map2 cmplt [0, 0, 0, 0] (bytes_of x)) =
        of_bytes (bytes_of x) AND of_bytes (map2 cmplt [0, 0, 0, 0] (bytes_of x))"
    by (simp only: of_bytes_bytes_of)
  also have "\<dots> = of_bytes (map2 smax (bytes_of x) [0, 0, 0, 0])"
    unfolding bytes_of_def by (simp add: of_bytes_and relu_lane del: of_bytes.simps)
  finally show ?thesis .
qed

lemma relu_int8_native:
  assumes "length x = lanes t"
  shows "relu_int8 t x = max_epi8 x (set1_epi8 t 0)"
proof (cases t)
  case SSE2
  have "and_si x (mm_cmplt_epi8 (set1_epi8 t 0) x) = max_epi8 x (set1_epi8 t 0)"
    unfolding and_si_def mm_cmplt_epi8_def max_epi8_def epi8_def epi32_def set1_epi8_def
      assms [symmetric]
    by (induction x) (simp_all add: bytes_of_of_bytes relu_int8_lane del: of_bytes.simps)
  with SSE2 show ?thesis by (simp add: relu_int8_def)
qed (simp_all add: relu_int8_def)

lemma bytes_of_of_bytes_map: "bytes_of (of_bytes (map g (bytes_of w))) = map g (bytes_of w)"
  by (simp add: bytes_of_def [of w] bytes_of_of_bytes del: of_bytes.simps)

lemma halves_of_of_halves_map: "halves_of (of_halves (map g (halves_of w))) = map g (halves_of w)"
  by (simp add: halves_of_def [of w] halves_of_of_halves del: of_halves.simps)

lemma map2_bytes_of_const: "map2 f (bytes_of w) [c, c, c, c] = map (\<lambda>b. f b c) (bytes_of w)"
  by (simp add: bytes_of_def)

lemma map2_halves_of_const: "map2 f (halves_of w) [c, c] = map (\<lambda>b. f b c) (halves_of w)"
  by (simp add: halves_of_def)

lemma max_epi8_zero:
  assumes "length x = lanes t"
  shows "max_epi8 x (set1_epi8 t 0) = map (\<lambda>w. of_bytes (map (\<lambda>b. smax b 0) (bytes_of w))) x"
  unfolding max_epi8_def epi8_def set1_epi8_def assms [symmetric] map2_replicate_right
  by (simp only: bytes_of_of_bytes map2_bytes_of_const)

lemma max_epi16_zero:
  assumes "length x = lanes t"
  shows "max_epi16 x (set1_epi16 t 0) = map (\<lambda>w. of_halves (map (\<lambda>b. smax b 0) (halves_of w))) x"
  unfolding max_epi16_def epi16_def set1_epi16_def assms [symmetric] map2_replicate_right
  by (simp only: halves_of_of_halves map2_halves_of_const)

lemma max_epi32_zero:
  assumes "length x = lanes t"
  shows "max_epi32 x (set1_epi32 t 0) = map (\<lambda>w. smax w 0) x"
  unfolding max_epi32_def epi32_def set1_epi32_def assms [symmetric] map2_replicate_right
  by simp

lemma relu_int_native:
  assumes "length x = lanes t"
  shows "relu_int t x = max_epi32 x (set1_epi32 t 0)"
proof (cases t)
  case SSE2
  have "and_si x (mm_cmplt_epi32 (set1_epi32 t 0) x) = max_epi32 x (set1_epi32 t 0)"
    unfolding and_si_def mm_cmplt_epi32_def max_epi32_def epi32_def set1_epi32_def
      assms [symmetric]
    by (induction x) (simp_all add: relu_lane)
  with SSE2 show ?thesis by (simp add: relu_int_def)
qed (simp_all add: relu_int_def)

lemma int8_lanes_relu:
  assumes "length x = lanes t"
  shows "map sint (int8_lanes (relu_int8 t x)) = map (\<lambda>b. max (sint b) 0) (int8_lanes x)"
  unfolding relu_int8_native [OF assms] max_epi8_zero [OF assms] int8_lanes_def
  by (induction x) (simp_all add: bytes_of_of_bytes_map sint_smax del: of_bytes.simps)

lemma int16_lanes_relu:
  assumes "length x = lanes t"
  shows "map sint (int16_lanes (relu_int16 t x)) = map (\<lambda>b. max (sint b) 0) (int16_lanes x)"
  unfolding relu_int16_def Let_def max_epi16_zero [OF assms] int16_lanes_def
  by (induction x) (simp_all add: halves_of_of_halves_map sint_smax del: of_halves.simps)

lemma int_lanes_relu:
  assumes "length x = lanes t"
  shows "map sint (relu_int t x) = map (\<lambda>b. max (sint b) 0) x"
  unfolding relu_int_native [OF assms] max_epi32_zero [OF assms]
  by (simp add: sint_smax)

lemma length_bytes_of [simp]: "length (bytes_of w) = 4"
  by (simp add: bytes_of_def)

lemma length_halves_of [simp]: "length (halves_of w) = 2"
  by (simp add: halves_of_def)

lemma byte_hi_shift:
  "(ucast (drop_bit 8 (push_bit 8 z)) :: 8 word) = ucast (z :: 16 word)"
  by (rule bit_word_eqI) (auto simp add: bit_simps)

lemma multiply_int8_lane:
  "bytes_of
     (of_halves (map (push_bit 8) (halves_of (of_halves (map2 (*)
          (halves_of (of_halves (map (drop_bit 8) (halves_of x))))
          (halves_of (of_halves (map (drop_bit 8) (halves_of y))))))))
      OR
      of_halves (map (drop_bit 8) (halves_of (of_halves (map (push_bit 8)
          (halves_of (of_halves (map2 (*) (halves_of x) (halves_of y)))))))))
   = map2 (*) (bytes_of x) (bytes_of y)"
proof -
  obtain x0 x1 where x: "halves_of x = [x0, x1]" by (simp add: halves_of_def)
  obtain y0 y1 where y: "halves_of y = [y0, y1]" by (simp add: halves_of_def)
  have bx: "bytes_of x = [ucast x0, ucast (drop_bit 8 x0), ucast x1, ucast (drop_bit 8 x1)]"
    using x bytes_of_halves_of [of x] by (simp add: halves_of_def)
  have "by": "bytes_of y = [ucast y0, ucast (drop_bit 8 y0), ucast y1, ucast (drop_bit 8 y1)]"
    using y bytes_of_halves_of [of y] by (simp add: halves_of_def)
  show ?thesis
    unfolding x y bx "by"
    by (simp add: halves_of_of_halves of_halves_or bytes_of_of_halves byte_lo_combine
        byte_hi_combine byte_hi_shift ucast_mult_16_8 del: of_halves.simps)
qed

lemma int8_lanes_multiply:
  "int8_lanes (multiply_int8 a b) = map2 (*) (int8_lanes a) (int8_lanes b)"
proof (induction a arbitrary: b)
  case Nil
  show ?case
    by (simp add: multiply_int8_def int8_lanes_def or_si_def epi32_def slli_epi16_def srli_epi16_def
        mullo_epi16_def epi16_def)
next
  case (Cons x a)
  show ?case
  proof (cases b)
    case Nil
    then show ?thesis
      by (simp add: multiply_int8_def int8_lanes_def or_si_def epi32_def slli_epi16_def
          srli_epi16_def mullo_epi16_def epi16_def)
  next
    case (Cons y b')
    show ?thesis
      using Cons.IH [of b'] unfolding Cons
      by (simp add: multiply_int8_def int8_lanes_def or_si_def epi32_def slli_epi16_def
          srli_epi16_def mullo_epi16_def epi16_def Let_def multiply_int8_lane
          del: of_halves.simps)
  qed
qed

lemma multiply_int16_lane:
  "halves_of (of_halves (map2 (*) (halves_of x) (halves_of y))) = map2 (*) (halves_of x) (halves_of y)"
  by (simp add: halves_of_def [of x] halves_of_def [of y] halves_of_of_halves del: of_halves.simps)

lemma int16_lanes_multiply:
  "int16_lanes (multiply_int16 a b) = map2 (*) (int16_lanes a) (int16_lanes b)"
proof (induction a arbitrary: b)
  case Nil
  show ?case
    by (simp add: multiply_int16_def int16_lanes_def mullo_epi16_def epi16_def)
next
  case (Cons x a)
  show ?case
  proof (cases b)
    case Nil
    then show ?thesis
      by (simp add: multiply_int16_def int16_lanes_def mullo_epi16_def epi16_def)
  next
    case (Cons y b')
    show ?thesis
      using Cons.IH [of b'] unfolding Cons
      by (simp add: multiply_int16_def int16_lanes_def mullo_epi16_def epi16_def
          multiply_int16_lane del: of_halves.simps)
  qed
qed

lemma mm_srli_si128_4:
  "mm_srli_si128 [a0, a1, a2, a3] 4 = [a1, a2, a3, 0]"
proof -
  have "of_bytes [ucast w, ucast (drop_bit 8 w), ucast (drop_bit 16 w), ucast (drop_bit 24 w)] = w" for w
    using of_bytes_bytes_of [of w] by (simp only: bytes_of_def)
  then show ?thesis
    by (simp add: mm_srli_si128_def int8_lanes_def bytes_of_def del: of_bytes.simps)
       (simp add: numeral_eq_Suc)
qed

lemma multiply_int_SSE2:
  "multiply_int SSE2 [a0, a1, a2, a3] [b0, b1, b2, b3] = [a0 * b0, a1 * b1, a2 * b2, a3 * b3]"
  by (simp add: multiply_int_def mm_srli_si128_4 shuffle_epi32_def unpacklo_epi32_def Let_def
      ucast_mult_64_32)

lemma list4: "length a = 4 \<Longrightarrow> \<exists>a0 a1 a2 a3. a = [a0, a1, a2, a3]"
  by (auto simp add: numeral_eq_Suc length_Suc_conv)

lemma multiply_int_SSE2_native:
  assumes "length a = 4" "length b = 4"
  shows "multiply_int SSE2 a b = mullo_epi32 a b"
proof -
  obtain a0 a1 a2 a3 b0 b1 b2 b3 where "a = [a0, a1, a2, a3]" "b = [b0, b1, b2, b3]"
    using assms list4 by metis
  then show ?thesis
    by (simp add: multiply_int_SSE2 mullo_epi32_def epi32_def)
qed

lemma fp_zero_lane:
  "0 < ew \<Longrightarrow> \<not> fp_is_nan ew mw 0" "fp_ival ew mw 0 = 0" "fp_valof ew mw 0 = 0"
  by (simp_all add: fp_is_nan_def fp_expo_def fp_mant_def fp_ival_def fp_mag_def fp_sign_def fp_valof_def)

lemma fp_valof_pos_iff: "0 < fp_valof ew mw v \<longleftrightarrow> 0 < fp_ival ew mw v"
  by (simp add: fp_valof_def zero_less_divide_iff)

lemma fp_max_zero_valof:
  assumes "0 < ew"
  shows "fp_valof ew mw (fp_max ew mw v 0) = (if fp_is_nan ew mw v then 0 else max (fp_valof ew mw v) 0)"
  using fp_valof_pos_iff [of ew mw v] assms
  by (auto simp add: fp_max_def fp_lt_def fp_zero_lane max_def)

lemma relu_float_lanes:
  assumes "length x = lanes t"
  shows "map f32_valof (relu_float t x) = map (\<lambda>v. if f32_is_nan v then 0 else max (f32_valof v) 0) x"
  unfolding relu_float_def Let_def max_ps_def setzero_ps_def assms [symmetric] map2_replicate_right
  by (simp add: fp_max_zero_valof)

lemma relu_double_lanes:
  assumes "length x = lanes t div 2"
  shows "map (f64_valof) (relu_double t x) = map (\<lambda>v. if f64_is_nan v then 0 else max (f64_valof v) 0) x"
  unfolding relu_double_def Let_def max_pd_def setzero_pd_def assms [symmetric] map2_replicate_right
  by (simp add: fp_max_zero_valof)

lemmas fp_eval = fp_mul_def fp_add_def fp_sub_def fp_div_def fp_round_def fp_round_mag_def fp_enc_def
  fp_bits_def fp_mag_def fp_expo_def fp_mant_def fp_sign_def fp_is_nan_def fp_is_inf_def
  fp_is_finite_def fp_ival_def fp_unit_def fp_zero_def fp_inf_def fp_default_nan_def fp_quiet_def
  fp_neg_def rne_div_def Let_def compute_floorlog f32_of_int_def fp_lt_def fp_eq_def fp_max_def fp_min_def
  f32_to_int_rne_def f32_to_int_trunc_def int32_of_def int_indefinite_def f32_floor_def f32_1_def


lemma length_unquantize: "length (unquantize input m) = min (length input) (length m)"
  by (simp add: unquantize_def mul_ps_def cvtepi32_ps_def)

lemma tenth: "f32_tenth = 0x3DCCCCCD"
  by (simp add: f32_tenth_def fp_eval)

lemma unq_100: "f32_mul (f32_of_int 100) 0x3DCCCCCD = 0x41200000" by (simp add: fp_eval)
lemma unq_m50: "f32_mul (f32_of_int (- 50)) 0x3DCCCCCD = 0xC0A00000" by (simp add: fp_eval)
lemma unq_0: "f32_mul (f32_of_int 0) 0x3DCCCCCD = 0" by (simp add: fp_eval)
lemma unq_25: "f32_mul (f32_of_int 25) 0x3DCCCCCD = 0x40200000" by (simp add: fp_eval)
lemma bias_10: "f32_add 0x41200000 f32_1 = 0x41300000" by (simp add: fp_eval)
lemma bias_m5: "f32_add 0xC0A00000 f32_1 = 0xC0800000" by (simp add: fp_eval)
lemma bias_0: "f32_add 0 f32_1 = 0x3F800000" by (simp add: fp_eval)
lemma bias_25: "f32_add 0x40200000 f32_1 = 0x40600000" by (simp add: fp_eval)

lemma scenario_values:
  "map f32_valof [0x41200000, 0xC0A00000, 0, 0x40200000] = [10, - 5, 0, 5 / 2]"
  "map f32_valof [0x41300000, 0xC0800000, 0x3F800000, 0x40600000] = [11, - 4, 1, 7 / 2]"
  by (simp_all add: fp_valof_def fp_eval)

lemma replicate_4: "replicate 4 x = [x, x, x, x]"
  by (simp add: numeral_eq_Suc)

lemma scenario_unquantize:
  "unquantize [100, - 50, 0, 25] (callback_set1_ps SSE2 f32_tenth) = [0x41200000, 0xC0A00000, 0, 0x40200000]"
  by (simp add: unquantize_def mul_ps_def cvtepi32_ps_def callback_set1_ps_def tenth replicate_4
      unq_100 unq_m50 unq_0 unq_25)

lemma unat_mult_mod256: "map unat (map2 (*) xs ys) = map2 (\<lambda>x y. unat x * unat y mod 256) xs (ys :: 8 word list)"
  by (induction xs arbitrary: ys) (auto simp add: unat_word_ariths split: list.splits)

lemma index_no_overflow:
  fixes r c k :: "'i::len word"
  assumes "unat r * unat c + unat k < 2 ^ LENGTH('i)"
  shows "unat (r * c + k) = unat r * unat c + unat k"
proof -
  have "unat r * unat c < 2 ^ LENGTH('i)" using assms by simp
  then have "unat (r * c) = unat r * unat c"
    by (simp add: unat_word_ariths)
  with assms show ?thesis by (simp add: unat_word_ariths)
qed

lemma length_callback_set1_ps [simp]: "length (callback_set1_ps t v) = callback_lanes t"
  by (simp add: callback_set1_ps_def)

lemma store_misaligned: "\<not> aligned (length v) p \<Longrightarrow> store v p mem = Inl UndefinedBehaviour"
  by (simp add: store_def)

lemma load_misaligned: "\<not> aligned n p \<Longrightarrow> load n p mem = Inl UndefinedBehaviour"
  by (simp add: load_def)



lemma unquantize_write_misaligned:
  assumes "length input = callback_lanes t"
    and "\<not> aligned (callback_lanes t) (addr config + unat (row_idx info * cols info + col_idx info))"
  shows "CallbackImpl_UnquantizeAndWrite t config input info mem = Inl UndefinedBehaviour"
proof -
  have "length (unquantize input (callback_set1_ps t (unquant_mult config))) = callback_lanes t"
    using assms(1) by (simp add: length_unquantize)
  with assms(2) show ?thesis
    by (simp add: CallbackImpl_UnquantizeAndWrite_def write_float_def Let_def store_def)
qed

lemma unquantize_bias_write_misaligned:
  assumes "length input = callback_lanes t"
    and "\<not> aligned (callback_lanes t) (bias_addr config + unat (col_idx info)) \<or>
         \<not> aligned (callback_lanes t)
             (output_addr config + unat (row_idx info * cols info + col_idx info))"
  shows "CallbackImpl_UnquantizeAndAddBiasAndWrite t config input info mem = Inl UndefinedBehaviour"
proof -
  let ?u = "unquantize input (callback_set1_ps t (unquant_mult_b config))"
  have lu: "length ?u = callback_lanes t"
    using assms(1) by (simp add: length_unquantize)
  show ?thesis
  proof (cases "add_bias_float ?u (bias_addr config) (col_idx info) mem")
    case (Inl e)
    then have "e = UndefinedBehaviour"
      by (simp add: add_bias_float_def load_def split: if_splits)
    with Inl show ?thesis
      by (simp add: CallbackImpl_UnquantizeAndAddBiasAndWrite_def Let_def)
  next
    case (Inr r)
    then have a: "aligned (callback_lanes t) (bias_addr config + unat (col_idx info))"
      and r: "length r = callback_lanes t"
      using lu by (auto simp add: add_bias_float_def load_def add_ps_def split: if_splits)
    from a assms(2) r Inr show ?thesis
      by (simp add: CallbackImpl_UnquantizeAndAddBiasAndWrite_def write_float_def Let_def store_def)
  qed
qed

text \<open>
  C2. \<^verbatim>\<open>relu\<close> is the lane-wise maximum with zero, for every element type and on every
  tier: the signed value of every integer lane of the result is \<open>max v 0\<close>, which covers the
  lanes holding \<open>0\<close>, \<open>-1\<close> and the least value; a float or double lane that is not a NaN
  has the value \<open>max v 0\<close> (an infinity counting as \<open>\<plusminus>2\<^sup>1\<^sup>2\<^sup>8\<close>, resp. \<open>\<plusminus>2\<^sup>1\<^sup>0\<^sup>2\<^sup>4\<close>), and a NaN lane
  gives \<open>0\<close>, as the \<^verbatim>\<open>MAX\<close> instruction returns its second operand there. The
  AND-with-mask emulation of the 128-bit tier is bit for bit the native signed maximum.
\<close>

theorem relu_lanewise_max:
  assumes "length x = lanes t" and "length y = lanes t" and "length z = lanes t div 2"
  shows
    "map sint (int8_lanes (relu_int8 t x)) = map (\<lambda>v. max (sint v) 0) (int8_lanes x) \<and>
     map sint (int16_lanes (relu_int16 t x)) = map (\<lambda>v. max (sint v) 0) (int16_lanes x) \<and>
     map sint (relu_int t x) = map (\<lambda>v. max (sint v) 0) x \<and>
     map f32_valof (relu_float t y) = map (\<lambda>v. if f32_is_nan v then 0 else max (f32_valof v) 0) y \<and>
     map f64_valof (relu_double t z) = map (\<lambda>v. if f64_is_nan v then 0 else max (f64_valof v) 0) z \<and>
     max_epi8 x (set1_epi8 t 0) = relu_int8 t x \<and>
     max_epi32 x (set1_epi32 t 0) = relu_int t x"
  using int8_lanes_relu [OF assms(1)] int16_lanes_relu [OF assms(1)] int_lanes_relu [OF assms(1)]
    relu_float_lanes [OF assms(2)] relu_double_lanes [OF assms(3)]
    relu_int8_native [OF assms(1)] relu_int_native [OF assms(1)]
  by (intro conjI) simp_all

theorem relu_lanewise_max_witness:
  "map sint (int8_lanes (relu_int8 SSE2 [0x7F80FF00, 0x80000000, 0xFFFFFFFF, 0x01020304])) =
     [0, 0, 0, 127, 0, 0, 0, 0, 0, 0, 0, 0, 4, 3, 2, 1] \<and>
   map sint (int16_lanes (relu_int16 SSE2 [0x7F80FF00, 0x80000000, 0xFFFFFFFF, 0x01020304])) =
     [0, 32640, 0, 0, 0, 0, 772, 258] \<and>
   map sint (relu_int SSE2 [0x7F80FF00, 0x80000000, 0xFFFFFFFF, 0x01020304]) =
     [2139160320, 0, 0, 16909060] \<and>
   map f32_valof (relu_float SSE2 [0x80000000, 0xBF800000, 0xFF7FFFFF, 0x40200000]) = [0, 0, 0, 5 / 2] \<and>
   map f64_valof (relu_double SSE2 [0xBFF0000000000000, 0x3FF0000000000000]) = [0, 1]"
proof -
  have "length [0x7F80FF00, 0x80000000, 0xFFFFFFFF, 0x01020304 :: 32 word] = lanes SSE2"
    "length [0x80000000, 0xBF800000, 0xFF7FFFFF, 0x40200000 :: f32] = lanes SSE2"
    "length [0xBFF0000000000000, 0x3FF0000000000000 :: f64] = lanes SSE2 div 2"
    by simp_all
  from relu_lanewise_max [OF this] show ?thesis
    by (simp add: int8_lanes_def int16_lanes_def bytes_of_def halves_of_def
        fp_valof_def fp_ival_def fp_mag_def fp_expo_def fp_mant_def fp_sign_def fp_is_nan_def fp_unit_def)
qed

text \<open>
  C3. Element-wise \<^verbatim>\<open>multiply\<close> is the lane-wise product of the element type. The 8-bit
  path, emulated with 16-bit products, gives in every byte lane the product modulo 256;
  the 16-bit path gives the product modulo \<open>2\<^sup>1\<^sup>6\<close>; on the 128-bit tier the 32-bit path,
  emulated with two unsigned 64-bit products, a shuffle and an interleave, gives the low 32
  bits of every lane product in lane order, which is what the native multiply of the
  larger tiers gives; the float and double paths are the lane-wise IEEE product.
\<close>

theorem multiply_lanewise_product:
  assumes "length c = 4" and "length d = 4"
  shows
    "int8_lanes (multiply_int8 a b) = map2 (*) (int8_lanes a) (int8_lanes b) \<and>
     map unat (int8_lanes (multiply_int8 a b)) =
       map2 (\<lambda>x y. unat x * unat y mod 256) (int8_lanes a) (int8_lanes b) \<and>
     int16_lanes (multiply_int16 a b) = map2 (*) (int16_lanes a) (int16_lanes b) \<and>
     multiply_int SSE2 c d = map2 (*) c d \<and>
     multiply_int AVX2 c d = multiply_int SSE2 c d \<and>
     multiply_int AVX2 a b = map2 (*) a b \<and>
     multiply_int AVX512BW a b = map2 (*) a b \<and>
     multiply_float e f = map2 f32_mul e f \<and>
     multiply_double g h = map2 f64_mul g h"
proof -
  have "multiply_int SSE2 c d = map2 (*) c d"
    using multiply_int_SSE2_native [OF assms] by (simp add: mullo_epi32_def epi32_def)
  moreover have "multiply_int AVX2 a b = map2 (*) a b" "multiply_int AVX512BW a b = map2 (*) a b"
    "multiply_int AVX2 c d = map2 (*) c d" for a b
    by (simp_all add: multiply_int_def mullo_epi32_def epi32_def)
  moreover have "map unat (int8_lanes (multiply_int8 a b)) =
      map2 (\<lambda>x y. unat x * unat y mod 256) (int8_lanes a) (int8_lanes b)"
    by (simp only: int8_lanes_multiply unat_mult_mod256)
  moreover have "multiply_float e f = map2 f32_mul e f" "multiply_double g h = map2 f64_mul g h"
    by (simp_all add: multiply_float_def multiply_double_def mul_ps_def mul_pd_def)
  ultimately show ?thesis
    using int8_lanes_multiply [of a b] int16_lanes_multiply [of a b] by (intro conjI) simp_all
qed

theorem multiply_lanewise_product_witness:
  "int8_lanes (multiply_int8 [0x7F80FF10, 0x01020304] [0x02FFFF10, 0x04030201]) =
     [0, 1, 128, 254, 4, 6, 6, 4] \<and>
   int16_lanes (multiply_int16 [0x7F80FF10, 0x01020304] [0x02FFFF10, 0x04030201]) =
     [0xE100, 0x0080, 0x0B04, 0x0B06] \<and>
   multiply_int SSE2 [0xFFFFFFFF, 0x10000, 3, 0x80000001] [0xFFFFFFFF, 0x10000, 5, 2] = [1, 0, 15, 2]"
proof -
  have "length [0xFFFFFFFF, 0x10000, 3, 0x80000001 :: 32 word] = 4"
    "length [0xFFFFFFFF, 0x10000, 5, 2 :: 32 word] = 4"
    by simp_all
  from multiply_lanewise_product [OF this, of "[0x7F80FF10, 0x01020304]" "[0x02FFFF10, 0x04030201]"
      "[]" "[]" "[]" "[]"]
  show ?thesis
    by (simp add: int8_lanes_def int16_lanes_def bytes_of_def halves_of_def)
qed



text \<open>
  C5. The scenario of the spec on the 4-lane tier: with the accumulator \<open>[100, -50, 0, 25]\<close>
  and the scale \<^verbatim>\<open>0.1f\<close>, \<^verbatim>\<open>UnquantizeAndWrite\<close> stores the floats \<open>10\<close>, \<open>-5\<close>, \<open>0\<close>
  and \<open>2.5\<close> in the window at \<^verbatim>\<open>row_idx * cols + col_idx\<close>; with the bias \<open>[1, 1, 1, 1]\<close> at
  \<^verbatim>\<open>col_idx\<close>, \<^verbatim>\<open>UnquantizeAndAddBiasAndWrite\<close> stores \<open>11\<close>, \<open>-4\<close>, \<open>1\<close> and \<open>3.5\<close>. The memory
  before the window and after it is the one before the call. The offset is taken not to
  overflow \<^verbatim>\<open>Index\<close>, and the window and the bias vector to be aligned for the 4-lane
  register and to lie inside the memory.
\<close>

theorem callback_scenario:
  fixes info :: "('i::len) word OutputBufferInfo"
  assumes "unat (row_idx info) * unat (cols info) + unat (col_idx info) < 2 ^ LENGTH('i)"
    and "p = a + (unat (row_idx info) * unat (cols info) + unat (col_idx info))"
    and "aligned 4 p"
    and "p + 4 \<le> length mem"
    and "aligned 4 (ba + unat (col_idx info))"
    and "take 4 (drop (ba + unat (col_idx info)) mem) = [f32_1, f32_1, f32_1, f32_1]"
  shows
    "CallbackImpl_UnquantizeAndWrite SSE2 \<lparr>unquant_mult = f32_tenth, addr = a\<rparr>
         [100, - 50, 0, 25] info mem =
       Inr (take p mem @ [0x41200000, 0xC0A00000, 0, 0x40200000] @ drop (p + 4) mem) \<and>
     CallbackImpl_UnquantizeAndAddBiasAndWrite SSE2
         \<lparr>unquant_mult_b = f32_tenth, bias_addr = ba, output_addr = a\<rparr>
         [100, - 50, 0, 25] info mem =
       Inr (take p mem @ [0x41300000, 0xC0800000, 0x3F800000, 0x40600000] @ drop (p + 4) mem) \<and>
     map f32_valof [0x41200000, 0xC0A00000, 0, 0x40200000] = [10, - 5, 0, 5 / 2] \<and>
     map f32_valof [0x41300000, 0xC0800000, 0x3F800000, 0x40600000] = [11, - 4, 1, 7 / 2] \<and>
     f32_valof f32_1 = 1 \<and>
     \<bar>f32_valof f32_tenth - 1 / 10\<bar> \<le> 1 / 2 ^ 28"
proof -
  have o: "a + unat (row_idx info * cols info + col_idx info) = p"
    unfolding index_no_overflow [OF assms(1)] by (rule assms(2) [symmetric])
  have q: "ba + unat (col_idx info) + 4 \<le> length mem"
  proof -
    have "length (take 4 (drop (ba + unat (col_idx info)) mem)) = 4"
      by (simp only: assms(6)) simp
    then show ?thesis by simp
  qed
  have l: "length [w, x, y, z] = 4" for w x y z :: f32
    by simp
  have st: "store [w, x, y, z] p mem = Inr (take p mem @ [w, x, y, z] @ drop (p + 4) mem)"
    for w x y z :: f32
    unfolding store_def l using assms(3,4) by simp
  have ab: "add_bias_float [0x41200000, 0xC0A00000, 0, 0x40200000] ba (col_idx info) mem =
      Inr [0x41300000, 0xC0800000, 0x3F800000, 0x40600000]"
    unfolding add_bias_float_def load_def l assms(6) using q assms(5)
    by (simp add: add_ps_def bias_10 bias_m5 bias_0 bias_25)
  have "CallbackImpl_UnquantizeAndWrite SSE2 \<lparr>unquant_mult = f32_tenth, addr = a\<rparr>
         [100, - 50, 0, 25] info mem =
       Inr (take p mem @ [0x41200000, 0xC0A00000, 0, 0x40200000] @ drop (p + 4) mem)"
    by (simp add: CallbackImpl_UnquantizeAndWrite_def write_float_def st
        scenario_unquantize o del: append.simps)
  moreover have "CallbackImpl_UnquantizeAndAddBiasAndWrite SSE2
         \<lparr>unquant_mult_b = f32_tenth, bias_addr = ba, output_addr = a\<rparr>
         [100, - 50, 0, 25] info mem =
       Inr (take p mem @ [0x41300000, 0xC0800000, 0x3F800000, 0x40600000] @ drop (p + 4) mem)"
    by (simp add: CallbackImpl_UnquantizeAndAddBiasAndWrite_def write_float_def st ab
        scenario_unquantize o del: append.simps)
  moreover have "f32_valof f32_1 = 1" "\<bar>f32_valof f32_tenth - 1 / 10\<bar> \<le> 1 / 2 ^ 28"
    by (simp_all add: tenth f32_1_def fp_valof_def fp_ival_def fp_mag_def fp_expo_def fp_mant_def
        fp_sign_def fp_unit_def)
  ultimately show ?thesis
    using scenario_values by simp
qed

theorem callback_scenario_witness:
  "CallbackImpl_UnquantizeAndWrite SSE2 \<lparr>unquant_mult = f32_tenth, addr = 4\<rparr> [100, - 50, 0, 25]
       \<lparr>row_idx = 1 :: 32 word, col_idx = 0, rows = 2, cols = 4\<rparr>
       [f32_1, f32_1, f32_1, f32_1, 5, 5, 5, 5, 6, 6, 6, 6, 7, 7] =
     Inr [f32_1, f32_1, f32_1, f32_1, 5, 5, 5, 5, 0x41200000, 0xC0A00000, 0, 0x40200000, 7, 7] \<and>
   CallbackImpl_UnquantizeAndAddBiasAndWrite SSE2
       \<lparr>unquant_mult_b = f32_tenth, bias_addr = 0, output_addr = 4\<rparr> [100, - 50, 0, 25]
       \<lparr>row_idx = 1 :: 32 word, col_idx = 0, rows = 2, cols = 4\<rparr>
       [f32_1, f32_1, f32_1, f32_1, 5, 5, 5, 5, 6, 6, 6, 6, 7, 7] =
     Inr [f32_1, f32_1, f32_1, f32_1, 5, 5, 5, 5, 0x41300000, 0xC0800000, 0x3F800000, 0x40600000, 7, 7]"
proof -
  let ?info = "\<lparr>row_idx = 1 :: 32 word, col_idx = 0, rows = 2, cols = 4\<rparr>"
  let ?mem = "[f32_1, f32_1, f32_1, f32_1, 5, 5, 5, 5, 6, 6, 6, 6, 7, 7] :: f32 list"
  have "unat (row_idx ?info) * unat (cols ?info) + unat (col_idx ?info) < 2 ^ LENGTH(32)"
    and "8 = 4 + (unat (row_idx ?info) * unat (cols ?info) + unat (col_idx ?info))"
    and "aligned 4 8"
    and "8 + 4 \<le> length ?mem"
    and "aligned 4 (0 + unat (col_idx ?info))"
    and "take 4 (drop (0 + unat (col_idx ?info)) ?mem) = [f32_1, f32_1, f32_1, f32_1]"
    by (simp_all add: aligned_def)
  from callback_scenario [OF this] show ?thesis
    by simp
qed

section \<open>Rounding\<close>

lemma rne_div_bounds:
  "n div d \<le> rne_div n d" "rne_div n d \<le> n div d + 1"
  by (simp_all add: rne_div_def Let_def)

lemma rne_div_exact: "0 < d \<Longrightarrow> rne_div (c * d) d = c"
  by (simp add: rne_div_def Let_def)

lemma rne_div_ge: "0 < d \<Longrightarrow> c * d \<le> n \<Longrightarrow> c \<le> rne_div n d"
proof -
  assume "0 < d" "c * d \<le> n"
  then have "c \<le> n div d"
    by (simp add: less_eq_div_iff_mult_less_eq)
  with rne_div_bounds(1) [of n d] show ?thesis by linarith
qed

lemma rne_div_le: "0 < d \<Longrightarrow> n \<le> c * d \<Longrightarrow> rne_div n d \<le> c"
proof -
  assume d: "0 < d" and le: "n \<le> c * d"
  show ?thesis
  proof (cases "n = c * d")
    case True
    with d show ?thesis by (simp add: rne_div_exact)
  next
    case False
    with le have "n < c * d" by simp
    with d have "n div d < c"
      by (simp add: div_less_iff_less_mult)
    with rne_div_bounds(2) [of n d] show ?thesis by linarith
  qed
qed


lemma f32_grid_intro:
  assumes "r \<le> 2 ^ 24"
  shows "f32_grid (r * 2 ^ k)"
proof (cases "r = 0")
  case True
  then show ?thesis by (simp add: f32_grid_def)
next
  case False
  then have fl: "floorlog 2 (r * 2 ^ k) = floorlog 2 r + k" by simp
  show ?thesis
  proof (cases "r = 2 ^ 24")
    case True
    have "floorlog 2 ((2::nat) ^ 24) = 25"
      using floorlog_power [of 1 2 24] by (simp add: compute_floorlog)
    then have "floorlog 2 (r * 2 ^ k) - 24 = k + 1" using fl True by simp
    moreover have "(2::nat) ^ (k + 1) dvd 2 ^ 24 * 2 ^ k"
      by (simp add: power_add [symmetric] le_imp_power_dvd)
    ultimately show ?thesis using True by (simp add: f32_grid_def)
  next
    case neq: False
    with assms have "r < 2 ^ 24" by simp
    then have "floorlog 2 r \<le> 24" by (simp add: floorlog_le_iff)
    then have "floorlog 2 (r * 2 ^ k) - 24 \<le> k" using fl by simp
    then have "(2::nat) ^ (floorlog 2 (r * 2 ^ k) - 24) dvd 2 ^ k"
      by (rule le_imp_power_dvd)
    then show ?thesis by (simp add: f32_grid_def)
  qed
qed

lemma fp_round_mag_grid:
  assumes "0 < d"
  shows "f32_grid (fp_round_mag 23 n d)"
proof -
  define L where "L = floorlog 2 (n div d)"
  define k where "k = L - 24"
  have lt: "n div d < 2 ^ L"
    unfolding L_def by (cases "n div d = 0") (simp_all add: floorlog_bounds)
  have "n div (d * 2 ^ k) < 2 ^ 24"
  proof (cases "24 \<le> L")
    case True
    then have "L = 24 + k" by (simp add: k_def)
    then have "(2::nat) ^ L = 2 ^ 24 * 2 ^ k" by (simp only: power_add)
    with lt have "n div d < 2 ^ 24 * 2 ^ k" by simp
    then have "(n div d) div 2 ^ k < 2 ^ 24"
      by (simp add: div_less_iff_less_mult)
    then show ?thesis by (simp add: div_mult2_eq)
  next
    case False
    then have "k = 0" by (simp add: k_def)
    moreover have "(2::nat) ^ L \<le> 2 ^ 24"
      using False by (intro power_increasing) simp_all
    ultimately show ?thesis using lt by simp
  qed
  with rne_div_bounds(2) [of n "d * 2 ^ k"] have "rne_div n (d * 2 ^ k) \<le> 2 ^ 24" by linarith
  then show ?thesis
    unfolding fp_round_mag_def Let_def L_def [symmetric]
    using f32_grid_intro k_def by simp
qed

lemma fp_round_mag_exact:
  assumes "0 < d" and "f32_grid c"
  shows "fp_round_mag 23 (c * d) d = c"
proof -
  define k where "k = floorlog 2 c - 24"
  from assms(2) obtain c' where c: "c = c' * 2 ^ k"
    unfolding f32_grid_def k_def by (auto simp add: dvd_def mult.commute)
  have "fp_round_mag 23 (c * d) d = rne_div (c * d) (d * 2 ^ k) * 2 ^ k"
    using assms(1) by (simp add: fp_round_mag_def Let_def k_def)
  also have "c * d = c' * (d * 2 ^ k)"
    by (simp add: c ac_simps)
  also have "rne_div (c' * (d * 2 ^ k)) (d * 2 ^ k) = c'"
    using assms(1) by (simp add: rne_div_exact)
  finally show ?thesis by (simp add: c ac_simps)
qed


lemma grid_below_floorlog:
  assumes "f32_grid c" and "\<not> 2 ^ k dvd c"
  shows "floorlog 2 c < k + 24"
proof (rule ccontr)
  assume "\<not> floorlog 2 c < k + 24"
  then have "k \<le> floorlog 2 c - 24" by simp
  then have "(2::nat) ^ k dvd 2 ^ (floorlog 2 c - 24)" by (rule le_imp_power_dvd)
  moreover have "2 ^ (floorlog 2 c - 24) dvd c"
    using assms(1) by (simp only: f32_grid_def)
  ultimately have "2 ^ k dvd c" by (rule dvd_trans)
  with assms(2) show False by simp
qed

lemma fp_round_mag_ge:
  assumes "0 < d" and "f32_grid c" and "c * d \<le> n"
  shows "c \<le> fp_round_mag 23 n d"
proof -
  define L where "L = floorlog 2 (n div d)"
  define k where "k = L - 24"
  have r: "fp_round_mag 23 n d = rne_div n (d * 2 ^ k) * 2 ^ k"
    by (simp add: fp_round_mag_def Let_def k_def L_def)
  show ?thesis
  proof (cases "2 ^ k dvd c")
    case True
    then obtain c' where c: "c = c' * 2 ^ k" by (auto simp add: dvd_def mult.commute)
    with assms(3) have "c' * (d * 2 ^ k) \<le> n" by (simp add: ac_simps)
    with assms(1) have "c' \<le> rne_div n (d * 2 ^ k)" by (intro rne_div_ge) simp_all
    then show ?thesis by (simp add: r c)
  next
    case False
    from grid_below_floorlog [OF assms(2) False] have fl: "floorlog 2 c < k + 24" .
    have k: "0 < k" using False by (cases k) simp_all
    then have L: "L = k + 24" by (simp add: k_def)
    have "c < 2 ^ (L - 1)"
    proof -
      have "floorlog 2 c \<le> L - 1" using fl L by simp
      then show ?thesis by (simp add: floorlog_le_iff)
    qed
    also have "(2::nat) ^ (L - 1) \<le> n div d"
      unfolding L_def using L by (intro floorlog_geD) (simp_all add: L_def)
    finally have c: "c < n div d" .
    have "(2::nat) ^ (L - 1) = 2 ^ 23 * 2 ^ k" using L by (simp only: power_add [symmetric]) simp
    with \<open>2 ^ (L - 1) \<le> n div d\<close> have "2 ^ 23 * 2 ^ k \<le> n div d" by simp
    then have "2 ^ 23 \<le> (n div d) div 2 ^ k"
      by (simp add: less_eq_div_iff_mult_less_eq)
    then have "2 ^ 23 \<le> rne_div n (d * 2 ^ k)"
      using rne_div_bounds(1) [of n "d * 2 ^ k"] by (simp add: div_mult2_eq)
    then have "2 ^ 23 * 2 ^ k \<le> rne_div n (d * 2 ^ k) * 2 ^ k" by (rule mult_le_mono1)
    then have "2 ^ (L - 1) \<le> fp_round_mag 23 n d"
      by (simp only: r \<open>2 ^ (L - 1) = 2 ^ 23 * 2 ^ k\<close>)
    with \<open>c < 2 ^ (L - 1)\<close> show ?thesis by linarith
  qed
qed

lemma fp_round_mag_le:
  assumes "0 < d" and "f32_grid c" and "n \<le> c * d"
  shows "fp_round_mag 23 n d \<le> c"
proof -
  define L where "L = floorlog 2 (n div d)"
  define k where "k = L - 24"
  have r: "fp_round_mag 23 n d = rne_div n (d * 2 ^ k) * 2 ^ k"
    by (simp add: fp_round_mag_def Let_def k_def L_def)
  have "2 ^ k dvd c"
  proof (rule ccontr)
    assume nd: "\<not> 2 ^ k dvd c"
    from grid_below_floorlog [OF assms(2) nd] have fl: "floorlog 2 c < k + 24" .
    have k: "0 < k" using nd by (cases k) simp_all
    then have L: "L = k + 24" by (simp add: k_def)
    have "c < 2 ^ (L - 1)"
    proof -
      have "floorlog 2 c \<le> L - 1" using fl L by simp
      then show ?thesis by (simp add: floorlog_le_iff)
    qed
    also have "(2::nat) ^ (L - 1) \<le> n div d"
      unfolding L_def using L by (intro floorlog_geD) (simp_all add: L_def)
    finally have "c < n div d" .
    moreover have "n div d \<le> c"
      using assms(1,3) by (metis div_le_mono div_mult_self_is_m)
    ultimately show False by simp
  qed
  then obtain c' where c: "c = c' * 2 ^ k" by (auto simp add: dvd_def mult.commute)
  with assms(3) have "n \<le> c' * (d * 2 ^ k)" by (simp add: ac_simps)
  with assms(1) have "rne_div n (d * 2 ^ k) \<le> c'" by (intro rne_div_le) simp_all
  then show ?thesis by (simp add: r c)
qed

section \<open>Packing and unpacking\<close>

lemma bit_nat_less: "m < 2 ^ k \<Longrightarrow> bit (m::nat) n \<Longrightarrow> n < k"
  by (metis bit_take_bit_iff take_bit_nat_eq_self)

lemma bit_sign_word: "bit (2147483648 :: 32 word) n \<longleftrightarrow> n = 31"
proof -
  have "(2147483648 :: 32 word) = 2 ^ 31" by simp
  then show ?thesis by (simp only: bit_exp_iff) auto
qed

lemma bit_fp_bits:
  "bit (fp_bits 8 23 s e m :: 32 word) n \<longleftrightarrow>
     (s \<and> n = 31) \<or> (23 \<le> n \<and> n < 32 \<and> bit e (n - 23)) \<or> (n < 32 \<and> bit m n)"
proof -
  have a: "bit (if s then push_bit (8 + 23) 1 else 0 :: 32 word) n \<longleftrightarrow> s \<and> n = 31"
  proof (cases s)
    case True
    have "push_bit (8 + 23) 1 = (2147483648 :: 32 word)" by simp
    with True show ?thesis by (simp only: bit_sign_word if_True simp_thms)
  qed simp
  have b: "bit (push_bit 23 (of_nat e) :: 32 word) n \<longleftrightarrow> 23 \<le> n \<and> n < 32 \<and> bit e (n - 23)"
    by (auto simp add: bit_simps)
  have c: "bit (of_nat m :: 32 word) n \<longleftrightarrow> n < 32 \<and> bit m n"
    by (auto simp add: bit_simps)
  show ?thesis
    unfolding fp_bits_def by (simp only: bit_or_iff a b c)
qed

lemma fp_bits_sign:
  assumes "e < 256" and "m < 2 ^ 23"
  shows "fp_sign 8 23 (fp_bits 8 23 s e m :: 32 word) = s"
proof -
  have e: "e < 2 ^ 8" using assms(1) by simp
  show ?thesis
    using bit_nat_less [OF assms(2), of 31] bit_nat_less [OF e, of 8]
    by (auto simp add: fp_sign_def bit_fp_bits)
qed

lemma fp_bits_mant:
  assumes "e < 256" and "m < 2 ^ 23"
  shows "fp_mant 23 (fp_bits 8 23 s e m :: 32 word) = m"
proof -
  have "take_bit 23 (fp_bits 8 23 s e m :: 32 word) = of_nat m"
    by (rule bit_word_eqI) (auto simp add: bit_fp_bits bit_simps dest: bit_nat_less [OF assms(2)])
  then show ?thesis using assms(2) by (simp add: fp_mant_def unat_of_nat)
qed

lemma fp_bits_expo:
  assumes "e < 256" and "m < 2 ^ 23"
  shows "fp_expo 8 23 (fp_bits 8 23 s e m :: 32 word) = e"
proof -
  have e: "e < 2 ^ 8" using assms(1) by simp
  have "take_bit 8 (drop_bit 23 (fp_bits 8 23 s e m :: 32 word)) = of_nat e"
    by (rule bit_word_eqI)
       (auto simp add: bit_fp_bits bit_simps dest: bit_nat_less [OF assms(2)] bit_nat_less [OF e])
  then show ?thesis using assms(1) by (simp add: fp_expo_def unat_of_nat)
qed

lemma fp_bits_unpack:
  "fp_bits 8 23 (fp_sign 8 23 b) (fp_expo 8 23 b) (fp_mant 23 b) = (b :: 32 word)"
proof (rule bit_word_eqI)
  fix n assume "n < LENGTH(32)"
  then have n: "n < 32" by simp
  consider "n < 23" | "23 \<le> n" "n < 31" | "n = 31" using n by linarith
  then show "bit (fp_bits 8 23 (fp_sign 8 23 b) (fp_expo 8 23 b) (fp_mant 23 b) :: 32 word) n = bit b n"
    by cases (auto simp add: bit_fp_bits fp_sign_def fp_expo_def fp_mant_def bit_simps)
qed

section \<open>Magnitudes of floats\<close>

lemma fp_expo_less: "fp_expo 8 23 (b :: 32 word) < 256"
proof -
  have "unat (take_bit 8 (drop_bit 23 b)) < 2 ^ 8"
    by (simp only: unsigned_take_bit_eq take_bit_nat_less_exp)
  then show ?thesis by (simp add: fp_expo_def)
qed

lemma fp_mant_less: "fp_mant 23 (b :: 32 word) < 2 ^ 23"
  unfolding fp_mant_def by (simp only: unsigned_take_bit_eq take_bit_nat_less_exp)

lemma floorlog_eqI:
  assumes "2 ^ n \<le> x" and "x < 2 ^ Suc n"
  shows "floorlog 2 x = Suc n"
proof (rule antisym)
  show "floorlog 2 x \<le> Suc n" using assms(2) by (simp add: floorlog_le_iff)
  show "Suc n \<le> floorlog 2 x" using assms(1) by (intro floorlog_ge_SucI) simp_all
qed

lemma f32_mag_grid: "f32_grid (f32_mag b)"
proof (cases "fp_expo 8 23 b = 0")
  case True
  have "fp_mant 23 b \<le> 2 ^ 24" using fp_mant_less [of b] by simp
  from f32_grid_intro [OF this, of 0] True show ?thesis by (simp add: fp_mag_def)
next
  case False
  have "2 ^ 23 + fp_mant 23 b \<le> 2 ^ 24" using fp_mant_less [of b] by simp
  from f32_grid_intro [OF this] False show ?thesis by (simp add: fp_mag_def)
qed

lemma f32_mag_finite:
  assumes "f32_is_finite b"
  shows "f32_mag b < 2 ^ 277"
proof (cases "fp_expo 8 23 b = 0")
  case True
  have "(2::nat) ^ 23 \<le> 2 ^ 277" by (intro power_increasing) simp_all
  with True fp_mant_less [of b] show ?thesis by (simp add: fp_mag_def)
next
  case False
  define e where "e = fp_expo 8 23 b - 1"
  have e: "e \<le> 253" using assms by (simp add: fp_is_finite_def e_def)
  have "(2 ^ 23 + fp_mant 23 b) * 2 ^ e < 2 ^ 24 * 2 ^ e"
    using fp_mant_less [of b] by simp
  also have "(2::nat) ^ 24 * 2 ^ e \<le> 2 ^ 24 * 2 ^ 253"
    using e by (intro mult_le_mono2 power_increasing) simp_all
  finally show ?thesis using False by (simp add: fp_mag_def e_def)
qed

lemma f32_mag_inf:
  assumes "f32_is_inf b"
  shows "f32_mag b = 2 ^ 277"
  using assms by (simp add: fp_is_inf_def fp_mag_def)

lemma f32_classes:
  "f32_is_finite b \<or> f32_is_inf b \<or> f32_is_nan b"
  "f32_is_finite b \<Longrightarrow> \<not> f32_is_inf b \<and> \<not> f32_is_nan b"
  "f32_is_inf b \<Longrightarrow> \<not> f32_is_nan b"
  using fp_expo_less [of b] by (auto simp add: fp_is_finite_def fp_is_inf_def fp_is_nan_def)

section \<open>Encoding a magnitude on the grid\<close>

lemma fp_enc_small:
  assumes "i < 2 ^ 23"
  shows "f32_mag (fp_enc 8 23 s i) = i" "f32_sign (fp_enc 8 23 s i) = s"
    "f32_is_finite (fp_enc 8 23 s i)"
  using assms
  by (simp_all add: fp_enc_def fp_mag_def fp_is_finite_def fp_bits_expo fp_bits_mant fp_bits_sign)

lemma fp_enc_normal:
  assumes "f32_grid i" and "2 ^ 23 \<le> i" and "i < 2 ^ 277"
  shows "f32_mag (fp_enc 8 23 s i) = i" "f32_sign (fp_enc 8 23 s i) = s"
    "f32_is_finite (fp_enc 8 23 s i)"
proof -
  define L where "L = floorlog 2 i"
  define k where "k = L - 24"
  have "Suc 23 \<le> floorlog 2 i" using assms(2) by (intro floorlog_ge_SucI) simp_all
  then have L24: "24 \<le> L" by (simp add: L_def)
  have L277: "L \<le> 277" unfolding L_def using assms(3) by (simp add: floorlog_le_iff)
  have Lk: "L = k + 24" using L24 by (simp add: k_def)
  have pos: "0 < i" using assms(2) by (cases "i = 0") simp_all
  from assms(1) obtain c where c: "i = c * 2 ^ k"
    unfolding f32_grid_def k_def L_def by (auto simp add: dvd_def mult.commute)
  have lo: "2 ^ (L - 1) \<le> i" and hi: "i < 2 ^ L"
    unfolding L_def using floorlog_bounds [OF pos, of 2] by simp_all
  have "(2::nat) ^ (L - 1) = 2 ^ 23 * 2 ^ k" "(2::nat) ^ L = 2 ^ 24 * 2 ^ k"
    using Lk by (simp_all only: power_add [symmetric]) simp_all
  with lo hi c have c23: "2 ^ 23 \<le> c" and c24: "c < 2 ^ 24" by simp_all
  have div: "i div 2 ^ k = c" by (simp add: c)
  have k253: "k \<le> 253" using L277 Lk by simp
  then have ne: "\<not> 2 ^ 8 - 1 \<le> k + 1" by simp
  have m: "c - 2 ^ 23 < 2 ^ 23" using c24 by simp
  have e: "k + 1 < 256" using k253 by simp
  have enc: "fp_enc 8 23 s i = fp_bits 8 23 s (k + 1) (c - 2 ^ 23)"
    using assms(2) ne by (simp add: fp_enc_def Let_def L_def [symmetric] k_def [symmetric] div)
  note x = fp_bits_expo [OF e m, of s] fp_bits_mant [OF e m, of s] fp_bits_sign [OF e m, of s]
  show "f32_mag (fp_enc 8 23 s i) = i"
    unfolding enc using c23 x by (simp add: fp_mag_def c)
  show "f32_sign (fp_enc 8 23 s i) = s"
    unfolding enc by (rule fp_bits_sign [OF e m])
  show "f32_is_finite (fp_enc 8 23 s i)"
    unfolding enc using k253 x by (simp add: fp_is_finite_def)
qed

lemma fp_enc_finite:
  assumes "f32_grid i" and "i < 2 ^ 277"
  shows "f32_mag (fp_enc 8 23 s i) = i" "f32_sign (fp_enc 8 23 s i) = s"
    "f32_is_finite (fp_enc 8 23 s i)"
  using fp_enc_small [of i s] fp_enc_normal [OF assms(1) _ assms(2), of s]
  by (cases "i < 2 ^ 23"; simp)+

lemma fp_inf_lane:
  "f32_is_inf (fp_inf 8 23 s)" "f32_sign (fp_inf 8 23 s) = s" "f32_mag (fp_inf 8 23 s) = 2 ^ 277"
  by (simp_all add: fp_inf_def fp_is_inf_def fp_mag_def fp_bits_expo fp_bits_mant fp_bits_sign)

lemma fp_enc_overflow:
  assumes "2 ^ 277 \<le> i"
  shows "fp_enc 8 23 s i = fp_inf 8 23 s"
proof -
  have "2 ^ 23 \<le> i"
    using assms power_increasing [of 23 277 "2::nat"] by simp
  moreover have "Suc 277 \<le> floorlog 2 i"
    using assms by (intro floorlog_ge_SucI) simp_all
  then have "254 \<le> floorlog 2 i - 24" by simp
  ultimately show ?thesis by (simp add: fp_enc_def Let_def)
qed

lemma fp_enc_decode:
  assumes "f32_is_finite b"
  shows "fp_enc 8 23 (f32_sign b) (f32_mag b) = b"
proof (cases "fp_expo 8 23 b = 0")
  case True
  with fp_mant_less [of b] fp_bits_unpack [of b] show ?thesis
    by (simp add: fp_enc_def fp_mag_def)
next
  case False
  define e where "e = fp_expo 8 23 b - 1"
  define m where "m = fp_mant 23 b"
  have e: "fp_expo 8 23 b = e + 1" using False by (simp add: e_def)
  have e253: "e \<le> 253" using assms e by (simp add: fp_is_finite_def)
  have m: "m < 2 ^ 23" unfolding m_def by (rule fp_mant_less)
  have mag: "f32_mag b = (2 ^ 23 + m) * 2 ^ e" by (simp add: fp_mag_def e m_def)
  have f: "floorlog 2 (2 ^ 23 + m) = 24"
    using m by (intro floorlog_eqI [of 23, simplified]) simp_all
  have ge: "\<not> (2 ^ 23 + m) * 2 ^ e < 2 ^ 23"
  proof -
    have "(2::nat) ^ 23 * 1 \<le> (2 ^ 23 + m) * 2 ^ e" by (intro mult_le_mono) simp_all
    then show ?thesis by simp
  qed
  have "fp_enc 8 23 (f32_sign b) (f32_mag b) = fp_bits 8 23 (f32_sign b) (e + 1) m"
    unfolding mag using ge e253 f by (simp add: fp_enc_def Let_def)
  also have "\<dots> = fp_bits 8 23 (f32_sign b) (fp_expo 8 23 b) (fp_mant 23 b)"
    by (simp only: e m_def)
  also have "\<dots> = b" by (rule fp_bits_unpack)
  finally show ?thesis .
qed

section \<open>Rounded results\<close>

lemma f32_round_finite:
  assumes "0 < d" and "fp_round_mag 23 n d < 2 ^ 277"
  shows "f32_is_finite (f32_round s n d)" "f32_sign (f32_round s n d) = s"
    "f32_mag (f32_round s n d) = fp_round_mag 23 n d"
  using fp_enc_finite [OF fp_round_mag_grid [OF assms(1)] assms(2), of s]
  by (simp_all add: fp_round_def)

lemma f32_round_overflow:
  assumes "2 ^ 277 \<le> fp_round_mag 23 n d"
  shows "f32_round s n d = fp_inf 8 23 s"
  using fp_enc_overflow [OF assms] by (simp add: fp_round_def)

lemma f32_round_sign:
  assumes "0 < d"
  shows "f32_sign (f32_round s n d) = s" "\<not> f32_is_nan (f32_round s n d)"
proof -
  consider "fp_round_mag 23 n d < 2 ^ 277" | "2 ^ 277 \<le> fp_round_mag 23 n d" by linarith
  then have "f32_sign (f32_round s n d) = s \<and> \<not> f32_is_nan (f32_round s n d)"
  proof cases
    case 1
    from f32_round_finite [OF assms 1, of s] f32_classes(2) show ?thesis by blast
  next
    case 2
    from f32_round_overflow [OF 2, of s] fp_inf_lane [of s] f32_classes(3) show ?thesis by metis
  qed
  then show "f32_sign (f32_round s n d) = s" "\<not> f32_is_nan (f32_round s n d)" by simp_all
qed

lemma f32_round_mag_ge:
  assumes "0 < d" and "f32_grid c" and "c * d \<le> n" and "c < 2 ^ 277"
  shows "c \<le> f32_mag (f32_round s n d)"
proof -
  have ge: "c \<le> fp_round_mag 23 n d" using assms(1-3) by (rule fp_round_mag_ge)
  consider "fp_round_mag 23 n d < 2 ^ 277" | "2 ^ 277 \<le> fp_round_mag 23 n d" by linarith
  then show ?thesis
  proof cases
    case 1
    with f32_round_finite(3) [OF assms(1) 1, of s] ge show ?thesis by simp
  next
    case 2
    with f32_round_overflow [OF 2, of s] fp_inf_lane(3) [of s] assms(4) show ?thesis by simp
  qed
qed

lemma f32_round_le:
  assumes "0 < d" and "f32_grid c" and "n \<le> c * d" and "c < 2 ^ 277"
  shows "f32_is_finite (f32_round s n d)" "f32_mag (f32_round s n d) \<le> c"
proof -
  have le: "fp_round_mag 23 n d \<le> c" using assms(1-3) by (rule fp_round_mag_le)
  with assms(4) have lt: "fp_round_mag 23 n d < 2 ^ 277" by simp
  from f32_round_finite [OF assms(1) lt, of s] le
  show "f32_is_finite (f32_round s n d)" "f32_mag (f32_round s n d) \<le> c" by simp_all
qed

lemma f32_round_exact:
  assumes "0 < d" and "f32_grid c" and "c < 2 ^ 277"
  shows "f32_is_finite (f32_round s (c * d) d)" "f32_sign (f32_round s (c * d) d) = s"
    "f32_mag (f32_round s (c * d) d) = c" "f32_round s (c * d) d = fp_enc 8 23 s c"
  using fp_round_mag_exact [OF assms(1,2)] fp_enc_finite [OF assms(2,3), of s]
  by (simp_all add: fp_round_def)

lemma f32_round_self:
  assumes "0 < d" and "f32_is_finite b"
  shows "f32_round (f32_sign b) (f32_mag b * d) d = b"
  using f32_round_exact(4) [OF assms(1) f32_mag_grid f32_mag_finite [OF assms(2)]]
    fp_enc_decode [OF assms(2)]
  by simp

section \<open>Integers as floats\<close>

lemma grid_int: "n \<le> 2 ^ 24 \<Longrightarrow> f32_grid (n * 2 ^ 149)"
  by (rule f32_grid_intro)

lemma f32_of_int_exact:
  assumes "f32_grid (nat \<bar>i\<bar> * 2 ^ 149)" and "nat \<bar>i\<bar> * 2 ^ 149 < 2 ^ 277"
  shows "f32_is_finite (f32_of_int i)" "f32_ival (f32_of_int i) = i * 2 ^ 149"
proof -
  from f32_round_exact [OF _ assms, of 1 "i < 0"]
  have fin: "f32_is_finite (f32_of_int i)" and s: "f32_sign (f32_of_int i) = (i < 0)"
    and m: "f32_mag (f32_of_int i) = nat \<bar>i\<bar> * 2 ^ 149"
    by (simp_all add: f32_of_int_def)
  show "f32_is_finite (f32_of_int i)" by (rule fin)
  show "f32_ival (f32_of_int i) = i * 2 ^ 149"
    unfolding fp_ival_def s m by (simp add: nat_mult_distrib)
qed

lemma f32_of_int_small:
  assumes "\<bar>i\<bar> \<le> 2 ^ 24"
  shows "f32_is_finite (f32_of_int i)" "f32_ival (f32_of_int i) = i * 2 ^ 149"
proof -
  have n: "nat \<bar>i\<bar> \<le> 2 ^ 24" using assms by (simp add: nat_le_iff)
  have "nat \<bar>i\<bar> * 2 ^ 149 \<le> 2 ^ 24 * 2 ^ 149" using n by (rule mult_le_mono1)
  then have lt: "nat \<bar>i\<bar> * 2 ^ 149 < 2 ^ 277" by simp
  from f32_of_int_exact [OF grid_int [OF n] lt]
  show "f32_is_finite (f32_of_int i)" "f32_ival (f32_of_int i) = i * 2 ^ 149" by simp_all
qed

section \<open>Lanes of the float kernels\<close>

lemma replicate_as_map: "replicate (length xs) c = map (\<lambda>_. c) xs"
  by (simp add: map_replicate_const)

lemma map2_map_left: "map2 f (map g xs) xs = map (\<lambda>x. f (g x) x) xs"
  by (induction xs) simp_all

lemma map2_map_right: "map2 f xs (map h xs) = map (\<lambda>x. f x (h x)) xs"
  by (induction xs) simp_all

lemma map2_map_both: "map2 f (map g xs) (map h xs) = map (\<lambda>x. f (g x) (h x)) xs"
  by (induction xs) simp_all

lemmas lanewise = replicate_as_map map2_map_left map2_map_right map2_map_both map_map comp_def

lemma lane_mask_and: "f32_1 AND (lane_mask p AND lane_mask q) = (if p \<and> q then f32_1 else 0)"
  by (simp add: lane_mask_def)

lemma floor_ps_lanes:
  assumes "length x = lanes t"
  shows "floor_ps t x = map (floor_lane t) x"
proof (cases t)
  case SSE2
  show ?thesis
    unfolding floor_ps_def floor_lane_def SSE2 CPUType.case Let_def setzero_ps_def set1_ps_def
      cvtepi32_ps_def cvttps_epi32_def mm_cmplt_ps_def mm_cmpneq_ps_def and_ps_def sub_ps_def
      assms [unfolded SSE2, symmetric]
    by (simp only: lanewise)
next
  case AVX2
  then show ?thesis by (simp add: floor_ps_def floor_lane_def mm256_floor_ps_def)
next
  case AVX512BW
  have blend: "mm512_mask_blend_ps (map k x) (map f x) (map g x) = map (\<lambda>v. if k v then g v else f v) x"
    for k f g
    unfolding mm512_mask_blend_ps_def by (induction x) simp_all
  show ?thesis
    unfolding floor_ps_def floor_lane_def AVX512BW CPUType.case Let_def setzero_ps_def set1_ps_def
      cvtepi32_ps_def cvttps_epi32_def mm512_cmp_ps_mask_def mm512_kand_def sub_ps_def
      assms [unfolded AVX512BW, symmetric]
    by (simp only: lanewise blend cmp_lane.simps)
qed

lemma exp_clamp_lanes:
  assumes "length x = lanes t"
  shows "exp_clamp t x = map clamp_lane x"
  unfolding exp_clamp_def clamp_lane_def Let_def set1_ps_def max_ps_def min_ps_def assms [symmetric]
  by (simp only: lanewise)

lemma dividers_nth:
  "dividers t ! 0 = set1_ps t (divider 7)" "dividers t ! 1 = set1_ps t (divider 6)"
  "dividers t ! 2 = set1_ps t (divider 5)" "dividers t ! 3 = set1_ps t (divider 4)"
  "dividers t ! 4 = set1_ps t (divider 3)" "dividers t ! 5 = set1_ps t (divider 2)"
  "dividers t ! 6 = set1_ps t (divider 1)"
  by (simp_all add: dividers_def divider_def)

lemma taylor_poly_lanes:
  assumes "length xa = lanes t"
  shows "taylor_poly t xa = map poly_lane xa"
  unfolding taylor_poly_def poly_lane_def dividers_nth Let_def set1_ps_def
    add_ps_def mul_ps_def assms [symmetric] horner.simps
  by (simp only: lanewise)

lemma those_map_Some: "those (map (\<lambda>x. Some (f x)) xs) = Some (map f xs)"
  by (induction xs) simp_all

lemma those_length: "those xs = Some ys \<Longrightarrow> length ys = length xs"
  by (induction xs arbitrary: ys) (auto split: option.splits)

lemma those_map2:
  "(case those (map g xs) of None \<Rightarrow> None | Some ea \<Rightarrow> Some (map2 f ea (map h xs))) =
   those (map (\<lambda>x. case g x of None \<Rightarrow> None | Some e \<Rightarrow> Some (f e (h x))) xs)"
proof (induction xs)
  case Nil
  show ?case by simp
next
  case (Cons a xs)
  show ?case
    using Cons.IH [symmetric] by (cases "g a"; cases "those (map g xs)") simp_all
qed

lemma exp_approx_taylor_lanes:
  assumes "length x = lanes t" and "t \<noteq> SSE2"
  shows "exp_approx_taylor ndebug EXP_LOOKUP t x =
         (case those (map (exp_lane EXP_LOOKUP t) x) of
            None \<Rightarrow> Inl UndefinedBehaviour
          | Some r \<Rightarrow> Inr r)"
proof -
  let ?c = "map clamp_lane x"
  let ?a = "map (\<lambda>v. floor_lane t (clamp_lane v)) x"
  let ?xa = "map (\<lambda>v. f32_sub (clamp_lane v) (floor_lane t (clamp_lane v))) x"
  have c: "exp_clamp t x = ?c" by (rule exp_clamp_lanes [OF assms(1)])
  have a: "floor_ps t ?c = ?a"
    using floor_ps_lanes [of ?c t] assms(1) by (simp add: comp_def)
  have xa: "sub_ps ?c ?a = ?xa"
    unfolding sub_ps_def by (simp only: lanewise)
  have p: "taylor_poly t ?xa = map (\<lambda>v. poly_lane (f32_sub (clamp_lane v) (floor_lane t (clamp_lane v)))) x"
    using taylor_poly_lanes [of ?xa t] assms(1) by (simp add: comp_def)
  have g: "i32gather_ps EXP_LOOKUP (nat EXP_MAX) (cvtps_epi32 ?a) =
      those (map (\<lambda>v. gather_lane EXP_LOOKUP (nat EXP_MAX) (f32_to_int_rne (floor_lane t (clamp_lane v)))) x)"
    by (simp add: i32gather_ps_def cvtps_epi32_def comp_def)
  have "(case those (map (exp_lane EXP_LOOKUP t) x) of None \<Rightarrow> Inl UndefinedBehaviour | Some r \<Rightarrow> Inr r) =
      (case (case those (map (\<lambda>v. gather_lane EXP_LOOKUP (nat EXP_MAX) (f32_to_int_rne (floor_lane t (clamp_lane v)))) x) of
               None \<Rightarrow> None
             | Some ea \<Rightarrow> Some (map2 f32_mul ea
                 (map (\<lambda>v. poly_lane (f32_sub (clamp_lane v) (floor_lane t (clamp_lane v)))) x))) of
         None \<Rightarrow> Inl UndefinedBehaviour | Some r \<Rightarrow> Inr r)"
    unfolding those_map2 exp_lane_def Let_def ..
  then show ?thesis
    using assms(2)
    by (simp add: exp_approx_taylor_def Let_def c a xa p g mul_ps_def split: option.splits)
qed

section \<open>Arithmetic on finite lanes\<close>

lemma sint_int32_of:
  assumes "- (2 ^ 31) \<le> v" and "v < 2 ^ 31"
  shows "sint (int32_of v) = v"
  using assms signed_take_bit_int_eq_self [of 31 v]
  by (simp add: int32_of_def sint_sbintrunc')

lemma bit_fp_neg: "bit (fp_neg 8 23 b :: 32 word) n \<longleftrightarrow> (if n = 31 then \<not> bit b 31 else bit b n)"
proof -
  have "push_bit (8 + 23) 1 = (2147483648 :: 32 word)" by simp
  then have "bit (fp_neg 8 23 b) n \<longleftrightarrow> bit b n \<noteq> (n = 31)"
    unfolding fp_neg_def by (simp only: bit_xor_iff bit_sign_word)
  then show ?thesis by auto
qed

lemma fp_neg_fields:
  "fp_expo 8 23 (fp_neg 8 23 b :: 32 word) = fp_expo 8 23 b"
  "fp_mant 23 (fp_neg 8 23 b :: 32 word) = fp_mant 23 b"
  "f32_sign (fp_neg 8 23 b) = (\<not> f32_sign b)"
proof -
  have "take_bit 8 (drop_bit 23 (fp_neg 8 23 b)) = take_bit 8 (drop_bit 23 b)"
    by (rule bit_word_eqI) (auto simp add: bit_simps bit_fp_neg)
  then show "fp_expo 8 23 (fp_neg 8 23 b) = fp_expo 8 23 b" by (simp add: fp_expo_def)
  have "take_bit 23 (fp_neg 8 23 b) = take_bit 23 b"
    by (rule bit_word_eqI) (auto simp add: bit_simps bit_fp_neg)
  then show "fp_mant 23 (fp_neg 8 23 b) = fp_mant 23 b" by (simp add: fp_mant_def)
  show "f32_sign (fp_neg 8 23 b) = (\<not> f32_sign b)"
    by (simp add: fp_sign_def bit_fp_neg)
qed

lemma fp_neg_lane:
  "f32_is_finite (fp_neg 8 23 b) = f32_is_finite b"
  "f32_is_nan (fp_neg 8 23 b) = f32_is_nan b"
  "f32_is_inf (fp_neg 8 23 b) = f32_is_inf b"
  "f32_mag (fp_neg 8 23 b) = f32_mag b"
  "f32_ival (fp_neg 8 23 b) = - f32_ival b"
  by (simp_all add: fp_is_finite_def fp_is_nan_def fp_is_inf_def fp_mag_def fp_ival_def fp_neg_fields)

lemma f32_zero_lane:
  "f32_is_finite (fp_zero 8 23 s)" "f32_mag (fp_zero 8 23 s) = 0" "f32_ival (fp_zero 8 23 s) = 0"
  "f32_sign (fp_zero 8 23 s) = s"
  by (simp_all add: fp_zero_def fp_is_finite_def fp_mag_def fp_ival_def fp_bits_expo fp_bits_mant
      fp_bits_sign)

lemma f32_round_ival:
  assumes "f32_grid (nat \<bar>i\<bar>)" and "nat \<bar>i\<bar> < 2 ^ 277"
  shows "f32_is_finite (f32_round (i < 0) (nat \<bar>i\<bar>) 1)" "f32_ival (f32_round (i < 0) (nat \<bar>i\<bar>) 1) = i"
proof -
  from f32_round_exact [OF _ assms, of 1 "i < 0"]
  have fin: "f32_is_finite (f32_round (i < 0) (nat \<bar>i\<bar>) 1)"
    and s: "f32_sign (f32_round (i < 0) (nat \<bar>i\<bar>) 1) = (i < 0)"
    and m: "f32_mag (f32_round (i < 0) (nat \<bar>i\<bar>) 1) = nat \<bar>i\<bar>"
    by simp_all
  show "f32_is_finite (f32_round (i < 0) (nat \<bar>i\<bar>) 1)" by (rule fin)
  show "f32_ival (f32_round (i < 0) (nat \<bar>i\<bar>) 1) = i"
    unfolding fp_ival_def s m by simp
qed

lemma f32_add_exact:
  assumes "f32_is_finite a" and "f32_is_finite b"
    and "f32_grid (nat \<bar>f32_ival a + f32_ival b\<bar>)" and "nat \<bar>f32_ival a + f32_ival b\<bar> < 2 ^ 277"
  shows "f32_is_finite (f32_add a b)" "f32_ival (f32_add a b) = f32_ival a + f32_ival b"
proof -
  note c = f32_classes(2) [OF assms(1)] f32_classes(2) [OF assms(2)]
  show "f32_is_finite (f32_add a b)"
    using c f32_round_ival(1) [OF assms(3,4)] f32_zero_lane(1)
    by (simp add: fp_add_def Let_def)
  show "f32_ival (f32_add a b) = f32_ival a + f32_ival b"
    using c f32_round_ival(2) [OF assms(3,4)] f32_zero_lane(3)
    by (simp add: fp_add_def Let_def)
qed

lemma f32_sub_exact:
  assumes "f32_is_finite a" and "f32_is_finite b"
    and "f32_grid (nat \<bar>f32_ival a - f32_ival b\<bar>)" and "nat \<bar>f32_ival a - f32_ival b\<bar> < 2 ^ 277"
  shows "f32_is_finite (f32_sub a b)" "f32_ival (f32_sub a b) = f32_ival a - f32_ival b"
proof -
  note c = f32_classes(2) [OF assms(1)] f32_classes(2) [OF assms(2)]
  have n: "f32_is_finite (fp_neg 8 23 b)" using assms(2) by (simp add: fp_neg_lane)
  have s: "f32_ival a + f32_ival (fp_neg 8 23 b) = f32_ival a - f32_ival b" by (simp add: fp_neg_lane)
  from f32_add_exact [OF assms(1) n] assms(3,4) c
  show "f32_is_finite (f32_sub a b)" "f32_ival (f32_sub a b) = f32_ival a - f32_ival b"
    by (simp_all add: fp_sub_def s)
qed

lemma f32_mul_finite:
  assumes "f32_is_finite a" and "f32_is_finite b"
  shows "f32_mul a b = f32_round (f32_sign a \<noteq> f32_sign b) (f32_mag a * f32_mag b) (2 ^ 149)"
  using f32_classes(2) [OF assms(1)] f32_classes(2) [OF assms(2)]
  by (simp add: fp_mul_def fp_unit_def)

lemma f32_ival_bounds:
  "\<bar>f32_ival b\<bar> = int (f32_mag b)"
  by (simp add: fp_ival_def)

section \<open>Floor\<close>

lemma f32_nonint_small:
  assumes "f32_is_finite b" and "\<not> 2 ^ 149 dvd f32_mag b"
  shows "f32_mag b < 2 ^ 172"
proof (cases "fp_expo 8 23 b = 0")
  case True
  have "(2::nat) ^ 23 \<le> 2 ^ 172" by (intro power_increasing) simp_all
  with True fp_mant_less [of b] show ?thesis by (simp add: fp_mag_def)
next
  case False
  define e where "e = fp_expo 8 23 b - 1"
  have mag: "f32_mag b = (2 ^ 23 + fp_mant 23 b) * 2 ^ e" using False by (simp add: fp_mag_def e_def)
  have "e \<le> 148"
  proof (rule ccontr)
    assume "\<not> e \<le> 148"
    then have "149 \<le> e" by simp
    then have "(2::nat) ^ 149 dvd 2 ^ e" by (rule le_imp_power_dvd)
    then have "2 ^ 149 dvd f32_mag b" unfolding mag by (rule dvd_mult)
    with assms(2) show False by simp
  qed
  have "(2 ^ 23 + fp_mant 23 b) * 2 ^ e < 2 ^ 24 * 2 ^ e"
    using fp_mant_less [of b] by simp
  also have "(2::nat) ^ 24 * 2 ^ e \<le> 2 ^ 24 * 2 ^ 148"
    using \<open>e \<le> 148\<close> by (intro mult_le_mono2 power_increasing) simp_all
  finally show ?thesis by (simp add: mag)
qed

lemma f32_trunc_grid:
  assumes "f32_is_finite b"
  shows "f32_grid (f32_mag b div 2 ^ 149 * 2 ^ 149)" "f32_mag b div 2 ^ 149 * 2 ^ 149 < 2 ^ 277"
proof -
  have le: "f32_mag b div 2 ^ 149 * 2 ^ 149 \<le> f32_mag b" by simp
  with f32_mag_finite [OF assms] show "f32_mag b div 2 ^ 149 * 2 ^ 149 < 2 ^ 277" by linarith
  show "f32_grid (f32_mag b div 2 ^ 149 * 2 ^ 149)"
  proof (cases "2 ^ 149 dvd f32_mag b")
    case True
    then have "f32_mag b div 2 ^ 149 * 2 ^ 149 = f32_mag b" by simp
    with f32_mag_grid [of b] show ?thesis by simp
  next
    case False
    from f32_nonint_small [OF assms False] have "f32_mag b < 2 ^ 23 * 2 ^ 149" by simp
    then have "f32_mag b div 2 ^ 149 < 2 ^ 23" by (simp add: div_less_iff_less_mult)
    then have "f32_mag b div 2 ^ 149 \<le> 2 ^ 24" by simp
    then show ?thesis by (rule grid_int)
  qed
qed

lemma f32_floor_ival:
  assumes "f32_is_finite b"
  shows "f32_is_finite (f32_floor b)" "f32_ival (f32_floor b) = f32_ival b div 2 ^ 149 * 2 ^ 149"
proof -
  note c = f32_classes(2) [OF assms]
  define q where "q = f32_ival b div 2 ^ 149"
  have "f32_is_finite (f32_floor b) \<and> f32_ival (f32_floor b) = q * 2 ^ 149"
  proof (cases "q * 2 ^ 149 = f32_ival b")
    case True
    with c assms show ?thesis by (simp add: f32_floor_def Let_def q_def)
  next
    case False
    then have nd: "\<not> 2 ^ 149 dvd f32_ival b" by (auto simp add: q_def)
    then have "\<not> 2 ^ 149 dvd f32_mag b"
      by (auto simp add: fp_ival_def split: if_splits)
    from f32_nonint_small [OF assms this] have "int (f32_mag b) < 2 ^ 172" by (simp add: nat_less_iff flip: of_nat_less_iff)
    then have lo: "- (2 ^ 172) < f32_ival b" and hi: "f32_ival b < 2 ^ 172"
      by (simp_all add: fp_ival_def)
    have "(- (2 ^ 172)) div 2 ^ 149 \<le> q" "q \<le> (2 ^ 172 - 1) div 2 ^ 149"
      unfolding q_def using lo hi by (intro zdiv_mono1; simp)+
    then have "\<bar>q\<bar> \<le> 2 ^ 24" by simp
    from f32_of_int_small [OF this] False c show ?thesis
      by (simp add: f32_floor_def Let_def q_def)
  qed
  then show "f32_is_finite (f32_floor b)" "f32_ival (f32_floor b) = f32_ival b div 2 ^ 149 * 2 ^ 149"
    by (simp_all add: q_def)
qed

lemma f32_one_lane: "f32_is_finite f32_1" "f32_ival f32_1 = 2 ^ 149" "f32_mag f32_1 = 2 ^ 149"
  "\<not> f32_sign f32_1"
  by (simp_all add: f32_1_def fp_is_finite_def fp_ival_def fp_mag_def fp_expo_def fp_mant_def
      fp_sign_def)

lemma f32_plus_zero_lane: "f32_is_finite 0" "f32_ival 0 = 0" "\<not> f32_is_nan 0"
  by (simp_all add: fp_is_finite_def fp_is_nan_def fp_ival_def fp_mag_def fp_expo_def fp_mant_def
      fp_sign_def)

lemma f32_lt_finite:
  assumes "f32_is_finite a" and "f32_is_finite b"
  shows "f32_lt a b \<longleftrightarrow> f32_ival a < f32_ival b" "f32_eq a b \<longleftrightarrow> f32_ival a = f32_ival b"
  using f32_classes(2) [OF assms(1)] f32_classes(2) [OF assms(2)]
  by (simp_all add: fp_lt_def fp_eq_def)

lemma f32_trunc_lane:
  assumes "f32_is_finite b"
    and "- (2 ^ 180) \<le> f32_ival b" and "f32_ival b < 2 ^ 180"
  defines "t \<equiv> (if f32_sign b then - int (f32_mag b div 2 ^ 149) else int (f32_mag b div 2 ^ 149))"
  shows "sint (f32_to_int_trunc b) = t"
    "f32_is_finite (f32_of_int t)" "f32_ival (f32_of_int t) = t * 2 ^ 149"
proof -
  define T where "T = f32_mag b div 2 ^ 149"
  have t: "t = (if f32_sign b then - int T else int T)" by (simp add: t_def T_def)
  have "f32_mag b \<le> 2 ^ 180" using assms(2,3) by (simp add: fp_ival_def nat_le_iff split: if_splits)
  then have "T \<le> 2 ^ 180 div 2 ^ 149" unfolding T_def by (rule div_le_mono)
  then have T31: "T \<le> 2 ^ 31" by simp
  have "T < 2 ^ 31" if "\<not> f32_sign b"
  proof -
    from that assms(3) have "f32_mag b < 2 ^ 31 * 2 ^ 149" by (simp add: fp_ival_def)
    then show ?thesis unfolding T_def by (simp add: div_less_iff_less_mult)
  qed
  with T31 have range: "- (2 ^ 31) \<le> t" "t < 2 ^ 31" by (auto simp add: t)
  have "f32_to_int_trunc b = int32_of t"
    using assms(1) by (simp add: f32_to_int_trunc_def Let_def t_def)
  then show "sint (f32_to_int_trunc b) = t"
    using sint_int32_of [OF range] by simp
  have abs: "nat \<bar>t\<bar> = T" by (simp add: t)
  from f32_trunc_grid [OF assms(1)]
  have "f32_grid (nat \<bar>t\<bar> * 2 ^ 149)" "nat \<bar>t\<bar> * 2 ^ 149 < 2 ^ 277"
    unfolding abs T_def by simp_all
  from f32_of_int_exact [OF this]
  show "f32_is_finite (f32_of_int t)" "f32_ival (f32_of_int t) = t * 2 ^ 149" by simp_all
qed

lemma floor_emulated:
  assumes "f32_is_finite b"
    and "- (2 ^ 180) \<le> f32_ival b" and "f32_ival b < 2 ^ 180"
  defines "r \<equiv> f32_of_int (sint (f32_to_int_trunc b))"
  defines "q \<equiv> f32_ival b div 2 ^ 149"
  shows "f32_is_finite r"
    and "\<not> (f32_ival b < 0 \<and> f32_ival b \<noteq> f32_ival r) \<Longrightarrow> f32_ival r = q * 2 ^ 149"
    and "f32_ival b < 0 \<and> f32_ival b \<noteq> f32_ival r \<Longrightarrow>
           f32_is_finite (f32_sub r f32_1) \<and> f32_ival (f32_sub r f32_1) = q * 2 ^ 149"
proof -
  define T where "T = f32_mag b div 2 ^ 149"
  define t where "t = (if f32_sign b then - int T else int T)"
  note tr = f32_trunc_lane [OF assms(1-3), folded T_def, folded t_def]
  have r: "r = f32_of_int t" by (simp add: r_def tr(1))
  show fin: "f32_is_finite r" unfolding r by (rule tr(2))
  have ir: "f32_ival r = t * 2 ^ 149" unfolding r by (rule tr(3))
  have "int (f32_mag b) = int (T * 2 ^ 149 + f32_mag b mod 2 ^ 149)"
    unfolding T_def by simp
  then have mag: "int (f32_mag b) = int T * 2 ^ 149 + int (f32_mag b mod 2 ^ 149)"
    by (simp only: of_nat_add of_nat_mult of_nat_power of_nat_numeral)
  {
    assume a: "\<not> (f32_ival b < 0 \<and> f32_ival b \<noteq> f32_ival r)"
    show "f32_ival r = q * 2 ^ 149"
    proof (cases "f32_ival b < 0")
      case True
      with a have "f32_ival b = t * 2 ^ 149" by (simp add: ir)
      then show ?thesis by (simp add: q_def ir)
    next
      case False
      then have "f32_ival b = int (f32_mag b)" "t = int T"
        by (auto simp add: fp_ival_def t_def T_def split: if_splits)
      then have "q = t"
        by (simp add: q_def T_def zdiv_int)
      then show ?thesis by (simp add: ir)
    qed
  }
  {
    assume a: "f32_ival b < 0 \<and> f32_ival b \<noteq> f32_ival r"
    then have s: "f32_sign b" and ib: "f32_ival b = - int (f32_mag b)"
      by (auto simp add: fp_ival_def split: if_splits)
    then have t: "t = - int T" by (simp add: t_def)
    from a have "int (f32_mag b) \<noteq> int T * 2 ^ 149" by (simp add: ib ir t)
    with mag have rem: "f32_mag b mod 2 ^ 149 \<noteq> 0" by auto
    then have nd: "\<not> 2 ^ 149 dvd f32_mag b" by (simp add: dvd_eq_mod_eq_0)
    from f32_nonint_small [OF assms(1) nd] have "f32_mag b < 2 ^ 23 * 2 ^ 149" by simp
    then have T23: "T < 2 ^ 23" unfolding T_def by (simp add: div_less_iff_less_mult)
    have q: "q = - int T - 1"
    proof -
      have e: "int (f32_mag b) mod 2 ^ 149 = int (f32_mag b mod 2 ^ 149)"
        by (simp add: of_nat_mod)
      have "int (f32_mag b) mod 2 ^ 149 \<noteq> 0"
        unfolding e using rem by simp
      then show ?thesis
        unfolding q_def ib by (simp add: zdiv_zminus1_eq_if T_def zdiv_int)
    qed
    have d: "f32_ival r - f32_ival f32_1 = - (int (T + 1) * 2 ^ 149)"
      by (simp add: ir t f32_one_lane algebra_simps)
    have n: "nat \<bar>f32_ival r - f32_ival f32_1\<bar> = (T + 1) * 2 ^ 149"
    proof -
      have "f32_ival r - f32_ival f32_1 = - int ((T + 1) * 2 ^ 149)"
        unfolding d by simp
      then show ?thesis by (simp only: abs_minus_cancel abs_of_nat nat_int)
    qed
    have T24: "T + 1 \<le> 2 ^ 24" using T23 by simp
    have g: "f32_grid (nat \<bar>f32_ival r - f32_ival f32_1\<bar>)"
      unfolding n using T24 by (rule grid_int)
    have l: "nat \<bar>f32_ival r - f32_ival f32_1\<bar> < 2 ^ 277"
    proof -
      have "(T + 1) * 2 ^ 149 \<le> 2 ^ 24 * 2 ^ 149" using T24 by (rule mult_le_mono1)
      then show ?thesis unfolding n by simp
    qed
    from f32_sub_exact [OF fin f32_one_lane(1) g l] d q
    show "f32_is_finite (f32_sub r f32_1) \<and> f32_ival (f32_sub r f32_1) = q * 2 ^ 149"
      by (simp add: algebra_simps)
  }
qed

lemma f32_finiteI:
  assumes "\<not> f32_is_nan b" and "f32_mag b < 2 ^ 277"
  shows "f32_is_finite b"
  using f32_classes(1) [of b] f32_mag_inf [of b] assms by auto

lemma f32_sub_zero:
  assumes "f32_is_finite r"
  shows "f32_is_finite (f32_sub r 0)" "f32_ival (f32_sub r 0) = f32_ival r"
proof -
  have n: "nat \<bar>f32_ival r - f32_ival 0\<bar> = f32_mag r"
    unfolding f32_plus_zero_lane(2) by (simp add: f32_ival_bounds)
  from f32_sub_exact [OF assms f32_plus_zero_lane(1)] f32_mag_grid [of r] f32_mag_finite [OF assms]
  show "f32_is_finite (f32_sub r 0)" "f32_ival (f32_sub r 0) = f32_ival r"
    unfolding n by (simp_all add: f32_plus_zero_lane)
qed

lemma floor_lane_ival:
  assumes "f32_is_finite b"
    and "- (2 ^ 180) \<le> f32_ival b" and "f32_ival b < 2 ^ 180"
  shows "f32_is_finite (floor_lane t b) \<and> f32_ival (floor_lane t b) = f32_ival b div 2 ^ 149 * 2 ^ 149"
proof -
  define r where "r = f32_of_int (sint (f32_to_int_trunc b))"
  note em = floor_emulated [OF assms, folded r_def]
  have lt: "f32_lt b 0 \<longleftrightarrow> f32_ival b < 0"
    using f32_lt_finite(1) [OF assms(1) f32_plus_zero_lane(1)] by (simp add: f32_plus_zero_lane)
  have eq: "f32_eq b r \<longleftrightarrow> f32_ival b = f32_ival r"
    by (rule f32_lt_finite(2) [OF assms(1) em(1)])
  have neq: "cmp_lane CMP_NEQ_OQ b r \<longleftrightarrow> f32_ival b \<noteq> f32_ival r"
    using f32_classes(2) [OF assms(1)] f32_classes(2) [OF em(1)] by simp
  show ?thesis
  proof (cases t)
    case SSE2
    show ?thesis
    proof (cases "f32_ival b < 0 \<and> f32_ival b \<noteq> f32_ival r")
      case True
      with em(3) show ?thesis
        unfolding floor_lane_def SSE2 CPUType.case Let_def r_def [symmetric] lane_mask_and lt eq
        by simp
    next
      case False
      with em(2) f32_sub_zero [OF em(1)] show ?thesis
        unfolding floor_lane_def SSE2 CPUType.case Let_def r_def [symmetric] lane_mask_and lt eq
        by auto
    qed
  next
    case AVX2
    with f32_floor_ival [OF assms(1)] show ?thesis by (simp add: floor_lane_def)
  next
    case AVX512BW
    show ?thesis
    proof (cases "f32_ival b < 0 \<and> f32_ival b \<noteq> f32_ival r")
      case True
      with em(3) show ?thesis
        unfolding floor_lane_def AVX512BW CPUType.case Let_def r_def [symmetric] lt neq
        by simp
    next
      case False
      with em(1,2) show ?thesis
        unfolding floor_lane_def AVX512BW CPUType.case Let_def r_def [symmetric] lt neq
        by auto
    qed
  qed
qed

lemma f32_valof_floor:
  "of_int \<lfloor>f32_valof b\<rfloor> = (of_int (f32_ival b div 2 ^ 149 * 2 ^ 149) :: rat) / 2 ^ 149"
proof -
  have "\<lfloor>f32_valof b\<rfloor> = f32_ival b div 2 ^ 149"
    using floor_divide_of_int_eq [of "f32_ival b" "2 ^ 149", where ?'a = rat]
    by (simp add: fp_valof_def fp_unit_def)
  then show ?thesis by simp
qed

lemma f32_valof_range:
  "- (2 ^ 31) \<le> f32_valof b \<longleftrightarrow> - (2 ^ 180) \<le> f32_ival b"
  "f32_valof b < 2 ^ 31 \<longleftrightarrow> f32_ival b < 2 ^ 180"
proof -
  have "- (2 ^ 31) \<le> f32_valof b \<longleftrightarrow> (of_int (- (2 ^ 180)) :: rat) \<le> of_int (f32_ival b)"
    by (simp add: fp_valof_def fp_unit_def pos_le_divide_eq)
  then show "- (2 ^ 31) \<le> f32_valof b \<longleftrightarrow> - (2 ^ 180) \<le> f32_ival b"
    by (simp only: of_int_le_iff)
  have "f32_valof b < 2 ^ 31 \<longleftrightarrow> (of_int (f32_ival b) :: rat) < of_int (2 ^ 180)"
    by (simp add: fp_valof_def fp_unit_def pos_divide_less_eq)
  then show "f32_valof b < 2 ^ 31 \<longleftrightarrow> f32_ival b < 2 ^ 180"
    by (simp only: of_int_less_iff)
qed

lemma floor_lane_valof:
  assumes "f32_is_finite b" and "- (2 ^ 31) \<le> f32_valof b" and "f32_valof b < 2 ^ 31"
  shows "f32_is_finite (floor_lane t b)" "f32_valof (floor_lane t b) = of_int \<lfloor>f32_valof b\<rfloor>"
proof -
  from assms(2,3) have r: "- (2 ^ 180) \<le> f32_ival b" "f32_ival b < 2 ^ 180"
    by (simp_all only: f32_valof_range)
  from floor_lane_ival [OF assms(1) r, of t]
  show "f32_is_finite (floor_lane t b)" "f32_valof (floor_lane t b) = of_int \<lfloor>f32_valof b\<rfloor>"
    by (simp_all add: f32_valof_floor) (simp add: fp_valof_def fp_unit_def)
qed

lemma floor_native_valof:
  assumes "f32_is_finite b"
  shows "f32_is_finite (floor_lane AVX2 b)" "f32_valof (floor_lane AVX2 b) = of_int \<lfloor>f32_valof b\<rfloor>"
  using f32_floor_ival [OF assms]
  by (simp_all add: floor_lane_def f32_valof_floor) (simp add: fp_valof_def fp_unit_def)

lemma floor_lane_2p31:
  "floor_lane SSE2 0x4F000000 = 0xCF000000"
  "floor_lane AVX512BW 0x4F000000 = 0xCF000000"
  "floor_lane AVX2 0x4F000000 = 0x4F000000"
  by (simp_all add: floor_lane_def lane_mask_def fp_eval)

lemma valof_2p31: "f32_valof 0x4F000000 = 2 ^ 31" "f32_valof 0xCF000000 = - (2 ^ 31)"
  by (simp_all add: fp_valof_def fp_eval)

text \<open>
  In a finite lane whose value lies in \<open>[- 2\<^sup>3\<^sup>1, 2\<^sup>3\<^sup>1)\<close> every tier gives the largest whole
  number not above the lane, whatever the other lanes hold; the native instruction of the
  256-bit tier does so in every finite lane.
\<close>

lemma floor_per_lane:
  assumes "length x = lanes t" and "i < lanes t" and "f32_is_finite (x ! i)"
    and "t = AVX2 \<or> (- (2 ^ 31) \<le> f32_valof (x ! i) \<and> f32_valof (x ! i) < 2 ^ 31)"
  shows "f32_is_finite (floor_ps t x ! i) \<and>
         f32_valof (floor_ps t x ! i) = of_int \<lfloor>f32_valof (x ! i)\<rfloor>"
proof -
  have l: "floor_ps t x ! i = floor_lane t (x ! i)"
    using assms(1,2) by (simp add: floor_ps_lanes)
  show ?thesis
  proof (cases "t = AVX2")
    case True
    with floor_native_valof [OF assms(3)] show ?thesis unfolding l by simp
  next
    case False
    with assms(4) floor_lane_valof [OF assms(3), of t] show ?thesis unfolding l by blast
  qed
qed

text \<open>
  C4. \<^verbatim>\<open>floor\<close> of a register whose lanes hold \<open>2\<^sup>3\<^sup>1\<close>, a whole number. The 256-bit tier,
  which has the native instruction, returns \<open>2\<^sup>3\<^sup>1\<close>. The emulation of the 128-bit and of the
  512-bit tier returns \<open>- 2\<^sup>3\<^sup>1\<close>: the truncating conversion to a 32-bit integer has no
  result for the lane and yields the integer indefinite value, which is converted back.
\<close>

theorem floor_out_of_range:
  "floor_ps SSE2 (set1_ps SSE2 0x4F000000) = set1_ps SSE2 0xCF000000 \<and>
   floor_ps AVX512BW (set1_ps AVX512BW 0x4F000000) = set1_ps AVX512BW 0xCF000000 \<and>
   floor_ps AVX2 (set1_ps AVX2 0x4F000000) = set1_ps AVX2 0x4F000000 \<and>
   f32_is_finite 0x4F000000 \<and>
   of_int \<lfloor>f32_valof 0x4F000000\<rfloor> = (2 ^ 31 :: rat) \<and>
   f32_valof 0xCF000000 = - (2 ^ 31)"
proof -
  have "floor_ps t (set1_ps t 0x4F000000) = set1_ps t (floor_lane t 0x4F000000)" for t
    by (simp add: floor_ps_lanes set1_ps_def)
  moreover have "f32_is_finite 0x4F000000" by (simp add: fp_eval)
  ultimately show ?thesis by (simp add: floor_lane_2p31 valof_2p31)
qed

section \<open>The clamp of the exponent\<close>

lemma exp_bounds_lane:
  "f32_is_finite (f32_of_int EXP_MIN)" "f32_ival (f32_of_int EXP_MIN) = - 20 * 2 ^ 149"
  "f32_is_finite (f32_of_int EXP_MAX)" "f32_ival (f32_of_int EXP_MAX) = 20 * 2 ^ 149"
  using f32_of_int_small [of "- 20"] f32_of_int_small [of 20]
  by (simp_all add: EXP_MIN_def EXP_MAX_def)

lemma f32_lt_lane:
  assumes "f32_is_finite b"
  shows "f32_lt b v \<longleftrightarrow> \<not> f32_is_nan v \<and> f32_ival b < f32_ival v"
    and "f32_lt v b \<longleftrightarrow> \<not> f32_is_nan v \<and> f32_ival v < f32_ival b"
  using f32_classes(2) [OF assms] by (auto simp add: fp_lt_def)

lemma clamp_lane_cases:
  "clamp_lane v =
     (if f32_lt (f32_of_int EXP_MIN) v
      then (if f32_lt v (f32_of_int EXP_MAX) then v else f32_of_int EXP_MAX)
      else f32_of_int EXP_MIN)"
proof -
  have "f32_lt (f32_of_int EXP_MIN) (f32_of_int EXP_MAX)"
    unfolding f32_lt_finite(1) [OF exp_bounds_lane(1) exp_bounds_lane(3)] exp_bounds_lane
    by simp
  then show ?thesis by (simp add: clamp_lane_def fp_max_def fp_min_def)
qed

lemma clamp_lane_range:
  "f32_is_finite (clamp_lane v)"
  "- 20 * 2 ^ 149 \<le> f32_ival (clamp_lane v)"
  "f32_ival (clamp_lane v) \<le> 20 * 2 ^ 149"
proof -
  have mid: "f32_is_finite v"
    if "\<not> f32_is_nan v" and "- 20 * 2 ^ 149 < f32_ival v" and "f32_ival v < 20 * 2 ^ 149"
  proof -
    from that(2,3) have "\<bar>f32_ival v\<bar> < 20 * 2 ^ 149" by simp
    then have "int (f32_mag v) < 20 * 2 ^ 149" by (simp only: f32_ival_bounds)
    also have "(20 * 2 ^ 149 :: int) < int (2 ^ 277)" by simp
    finally have "f32_mag v < 2 ^ 277" by (simp only: of_nat_less_iff)
    with that(1) show ?thesis by (rule f32_finiteI)
  qed
  show "f32_is_finite (clamp_lane v)"
    using mid exp_bounds_lane(1,3)
    unfolding clamp_lane_cases f32_lt_lane [OF exp_bounds_lane(1)] f32_lt_lane [OF exp_bounds_lane(3)]
      exp_bounds_lane(2,4)
    by auto
  show "- 20 * 2 ^ 149 \<le> f32_ival (clamp_lane v)"
    unfolding clamp_lane_cases f32_lt_lane [OF exp_bounds_lane(1)] f32_lt_lane [OF exp_bounds_lane(3)]
    by (auto simp add: exp_bounds_lane(2,4))
  show "f32_ival (clamp_lane v) \<le> 20 * 2 ^ 149"
    unfolding clamp_lane_cases f32_lt_lane [OF exp_bounds_lane(1)] f32_lt_lane [OF exp_bounds_lane(3)]
    by (auto simp add: exp_bounds_lane(2,4))
qed

lemma clamp_lane_idem: "clamp_lane (clamp_lane v) = clamp_lane v"
proof -
  have lo: "clamp_lane (f32_of_int EXP_MIN) = f32_of_int EXP_MIN"
    unfolding clamp_lane_cases [of "f32_of_int EXP_MIN"]
      f32_lt_finite(1) [OF exp_bounds_lane(1) exp_bounds_lane(1)]
    by simp
  have "f32_lt (f32_of_int EXP_MIN) (f32_of_int EXP_MAX)"
    unfolding f32_lt_finite(1) [OF exp_bounds_lane(1) exp_bounds_lane(3)] exp_bounds_lane
    by simp
  then have hi: "clamp_lane (f32_of_int EXP_MAX) = f32_of_int EXP_MAX"
    unfolding clamp_lane_cases [of "f32_of_int EXP_MAX"]
      f32_lt_finite(1) [OF exp_bounds_lane(3) exp_bounds_lane(3)]
    by simp
  have "clamp_lane v = v \<or> clamp_lane v = f32_of_int EXP_MIN \<or> clamp_lane v = f32_of_int EXP_MAX"
    unfolding clamp_lane_cases [of v] by simp
  then show ?thesis using lo hi by auto
qed

lemma clamp_lane_inside:
  assumes "f32_is_finite v" and "- 20 * 2 ^ 149 \<le> f32_ival v" and "f32_ival v \<le> 20 * 2 ^ 149"
  shows "f32_ival (clamp_lane v) = f32_ival v"
  using assms(2,3) f32_classes(2) [OF assms(1)]
  unfolding clamp_lane_cases f32_lt_lane [OF exp_bounds_lane(1)] f32_lt_lane [OF exp_bounds_lane(3)]
  by (auto simp add: exp_bounds_lane(2,4))

lemma clamp_lane_nan: "f32_is_nan v \<Longrightarrow> clamp_lane v = f32_of_int EXP_MIN"
  unfolding clamp_lane_cases f32_lt_lane [OF exp_bounds_lane(1)] by simp

section \<open>The table lookup\<close>

lemma rne_lane:
  assumes "f32_is_finite a" and "f32_ival a = q * 2 ^ 149" and "- (2 ^ 31) \<le> q" and "q < 2 ^ 31"
  shows "sint (f32_to_int_rne a) = q"
proof -
  have "int (f32_mag a) = \<bar>q\<bar> * 2 ^ 149"
    using assms(2) f32_ival_bounds [of a] by (simp add: abs_mult)
  then have "int (f32_mag a) = int (nat \<bar>q\<bar> * 2 ^ 149)" by simp
  then have m: "f32_mag a = nat \<bar>q\<bar> * 2 ^ 149" by (simp only: of_nat_eq_iff)
  have r: "rne_div (f32_mag a) (2 ^ 149) = nat \<bar>q\<bar>"
    unfolding m by (rule rne_div_exact) simp
  have s: "(if f32_sign a then - int (nat \<bar>q\<bar>) else int (nat \<bar>q\<bar>)) = q"
  proof (cases "f32_sign a")
    case True
    with assms(2) have "q * 2 ^ 149 \<le> 0" by (simp add: fp_ival_def split: if_splits)
    then have "q \<le> 0" by (simp add: mult_le_0_iff)
    with True show ?thesis by simp
  next
    case False
    with assms(2) have "0 \<le> q * 2 ^ 149" by (simp add: fp_ival_def split: if_splits)
    then have "0 \<le> q" by (simp add: zero_le_mult_iff)
    with False show ?thesis by simp
  qed
  show ?thesis
    unfolding f32_to_int_rne_def Let_def r s
    using assms(1) sint_int32_of [OF assms(3,4)] by simp
qed

lemma gather_lane_table:
  assumes "length EXP_LOOKUP = 41" and "- 20 \<le> sint i" and "sint i \<le> 20"
  shows "gather_lane EXP_LOOKUP (nat EXP_MAX) i = Some (EXP_LOOKUP ! nat (20 + sint i))"
  using assms by (simp add: gather_lane_def EXP_MAX_def Let_def)

lemma exp_lane_floor:
  fixes v t
  defines "q \<equiv> f32_ival (clamp_lane v) div 2 ^ 149"
  shows "f32_is_finite (floor_lane t (clamp_lane v))"
    and "f32_ival (floor_lane t (clamp_lane v)) = q * 2 ^ 149"
    and "- 20 \<le> q" and "q \<le> 20"
    and "sint (f32_to_int_rne (floor_lane t (clamp_lane v))) = q"
proof -
  note c = clamp_lane_range [of v]
  have lo: "- (2 ^ 180) \<le> f32_ival (clamp_lane v)" using c(2) by simp
  have hi: "f32_ival (clamp_lane v) < 2 ^ 180" using c(3) by simp
  from floor_lane_ival [OF c(1) lo hi, of t]
  show f: "f32_is_finite (floor_lane t (clamp_lane v))"
    and i: "f32_ival (floor_lane t (clamp_lane v)) = q * 2 ^ 149"
    by (simp_all add: q_def)
  have "- 20 * 2 ^ 149 div 2 ^ 149 \<le> q" unfolding q_def using c(2) by (rule zdiv_mono1) simp
  then show ql: "- 20 \<le> q" by simp
  have "q \<le> 20 * 2 ^ 149 div 2 ^ 149" unfolding q_def using c(3) by (rule zdiv_mono1) simp
  then show qh: "q \<le> 20" by simp
  show "sint (f32_to_int_rne (floor_lane t (clamp_lane v))) = q"
    using ql qh by (intro rne_lane [OF f i]) simp_all
qed

lemma exp_lane_Some:
  assumes "length EXP_LOOKUP = 41"
  shows "exp_lane EXP_LOOKUP t v =
         Some (f32_mul (EXP_LOOKUP ! nat (20 + f32_ival (clamp_lane v) div 2 ^ 149))
                 (poly_lane (f32_sub (clamp_lane v) (floor_lane t (clamp_lane v)))))"
proof -
  note q = exp_lane_floor(3,4) [where v = v]
  note r = exp_lane_floor(5) [where v = v and t = t]
  have "gather_lane EXP_LOOKUP (nat EXP_MAX) (f32_to_int_rne (floor_lane t (clamp_lane v))) =
        Some (EXP_LOOKUP ! nat (20 + f32_ival (clamp_lane v) div 2 ^ 149))"
    using gather_lane_table [OF assms, of "f32_to_int_rne (floor_lane t (clamp_lane v))"] q
    unfolding r by simp
  then show ?thesis by (simp add: exp_lane_def Let_def)
qed

lemma exp_lane_clamp: "exp_lane EXP_LOOKUP t (clamp_lane v) = exp_lane EXP_LOOKUP t v"
  by (simp add: exp_lane_def clamp_lane_idem)

lemma exp_approx_taylor_total:
  assumes "length x = lanes t" and "t \<noteq> SSE2" and "length EXP_LOOKUP = 41"
  shows "exp_approx_taylor ndebug EXP_LOOKUP t x =
         Inr (map (\<lambda>v. f32_mul (EXP_LOOKUP ! nat (20 + f32_ival (clamp_lane v) div 2 ^ 149))
                 (poly_lane (f32_sub (clamp_lane v) (floor_lane t (clamp_lane v))))) x)"
  unfolding exp_approx_taylor_lanes [OF assms(1,2)] exp_lane_Some [OF assms(3)] those_map_Some
  by simp

section \<open>The exponential over its whole domain\<close>

lemma exp_clamp_idem:
  assumes "length x = lanes t"
  shows "exp_clamp t (exp_clamp t x) = exp_clamp t x"
proof -
  have l: "length (map clamp_lane x) = lanes t" using assms by simp
  show ?thesis
    unfolding exp_clamp_lanes [OF assms] exp_clamp_lanes [OF l]
    by (simp add: clamp_lane_idem)
qed

lemma exp_approx_taylor_clamp:
  assumes "length x = lanes t"
  shows "exp_approx_taylor ndebug EXP_LOOKUP t (exp_clamp t x) = exp_approx_taylor ndebug EXP_LOOKUP t x"
  by (simp add: exp_approx_taylor_def exp_clamp_idem [OF assms])

lemma length_sub_zero:
  assumes "length x = lanes t"
  shows "length (sub_ps (setzero_ps t) x) = lanes t"
  using assms by (simp add: sub_ps_def setzero_ps_def)

lemma sigmoid_total:
  assumes "length x = lanes t" and "t \<noteq> SSE2" and "length EXP_LOOKUP = 41"
  shows "\<exists>r. sigmoid ndebug EXP_LOOKUP rcp t x = Inr r"
  unfolding sigmoid_def Let_def
    exp_approx_taylor_total [OF assms(1,2,3)]
    exp_approx_taylor_total [OF length_sub_zero [OF assms(1)] assms(2,3)]
  using assms(2) by simp

lemma tanh_total:
  assumes "length x = lanes t" and "t \<noteq> SSE2" and "length EXP_LOOKUP = 41"
  shows "\<exists>r. tanh_ps ndebug EXP_LOOKUP t x = Inr r"
  unfolding tanh_ps_def Let_def
    exp_approx_taylor_total [OF assms(1,2,3)]
    exp_approx_taylor_total [OF length_sub_zero [OF assms(1)] assms(2,3)]
  using assms(2) by simp

text \<open>
  C8. \<^verbatim>\<open>exp_approx_taylor\<close> of a register is \<^verbatim>\<open>exp_approx_taylor\<close> of the register clamped
  lane by lane: a lane that is not above \<open>-20\<close> (or is a NaN) is replaced by \<open>-20\<close>, a lane
  that is not below \<open>20\<close> by \<open>20\<close>, every other lane is kept. On the tiers that have the
  kernel, and with the table of 41 entries, the call returns a register for every input: a
  lane out of range is saturated and is no failure.
\<close>

theorem exp_saturates:
  assumes "length x = lanes t"
  shows "exp_approx_taylor ndebug EXP_LOOKUP t x =
           exp_approx_taylor ndebug EXP_LOOKUP t (exp_clamp t x) \<and>
         exp_clamp t x =
           map (\<lambda>v. if f32_lt (f32_of_int EXP_MIN) v
                     then (if f32_lt v (f32_of_int EXP_MAX) then v else f32_of_int EXP_MAX)
                     else f32_of_int EXP_MIN) x \<and>
         (t \<noteq> SSE2 \<and> length EXP_LOOKUP = 41 \<longrightarrow>
            (\<exists>r. exp_approx_taylor ndebug EXP_LOOKUP t x = Inr r))"
proof -
  have "clamp_lane = (\<lambda>v. if f32_lt (f32_of_int EXP_MIN) v
                     then (if f32_lt v (f32_of_int EXP_MAX) then v else f32_of_int EXP_MAX)
                     else f32_of_int EXP_MIN)"
    by (rule ext) (rule clamp_lane_cases)
  with exp_clamp_lanes [OF assms] have c: "exp_clamp t x =
           map (\<lambda>v. if f32_lt (f32_of_int EXP_MIN) v
                     then (if f32_lt v (f32_of_int EXP_MAX) then v else f32_of_int EXP_MAX)
                     else f32_of_int EXP_MIN) x"
    by simp
  show ?thesis
    using exp_approx_taylor_clamp [OF assms, of ndebug EXP_LOOKUP] c
      exp_approx_taylor_total [OF assms, of EXP_LOOKUP ndebug]
    by simp
qed

text \<open>
  C9. On the 128-bit tier \<^verbatim>\<open>exp_approx_taylor\<close>, \<^verbatim>\<open>sigmoid\<close> and \<^verbatim>\<open>tanh\<close> return no value:
  the assertion fails, and with assertions compiled out the behaviour is undefined. On the
  two larger tiers, with the table of 41 entries, each of them returns a register for every
  input register.
\<close>

theorem exp_family_tiers:
  "exp_approx_taylor ndebug EXP_LOOKUP SSE2 x =
     Inl (if ndebug then UndefinedBehaviour else AssertionFailed) \<and>
   sigmoid ndebug EXP_LOOKUP rcp SSE2 x =
     Inl (if ndebug then UndefinedBehaviour else AssertionFailed) \<and>
   tanh_ps ndebug EXP_LOOKUP SSE2 x =
     Inl (if ndebug then UndefinedBehaviour else AssertionFailed) \<and>
   (t \<noteq> SSE2 \<and> length y = lanes t \<and> length EXP_LOOKUP = 41 \<longrightarrow>
      (\<exists>r. exp_approx_taylor ndebug EXP_LOOKUP t y = Inr r) \<and>
      (\<exists>r. sigmoid ndebug EXP_LOOKUP rcp t y = Inr r) \<and>
      (\<exists>r. tanh_ps ndebug EXP_LOOKUP t y = Inr r))"
  using exp_approx_taylor_total [of y t EXP_LOOKUP ndebug]
    sigmoid_total [of y t EXP_LOOKUP ndebug rcp] tanh_total [of y t EXP_LOOKUP ndebug]
  by (simp add: exp_approx_taylor_def sigmoid_def tanh_ps_def)

theorem exp_saturates_witness:
  "exp_clamp AVX2 [0x42C80000, 0xC2C80000, 0x7FC00000, 0x3F800000, 0, 0xFF800000, 0x7F800000, 0x41A00001] =
     [0x41A00000, 0xC1A00000, 0xC1A00000, 0x3F800000, 0, 0xC1A00000, 0x41A00000, 0x41A00000] \<and>
   exp_approx_taylor True (replicate 41 f32_1) AVX2
     [0x42C80000, 0xC2C80000, 0x7FC00000, 0x3F800000, 0, 0xFF800000, 0x7F800000, 0x41A00001] =
   exp_approx_taylor True (replicate 41 f32_1) AVX2
     [0x41A00000, 0xC1A00000, 0xC1A00000, 0x3F800000, 0, 0xC1A00000, 0x41A00000, 0x41A00000] \<and>
   (\<exists>r. exp_approx_taylor True (replicate 41 f32_1) AVX2
     [0x42C80000, 0xC2C80000, 0x7FC00000, 0x3F800000, 0, 0xFF800000, 0x7F800000, 0x41A00001] = Inr r)"
proof -
  have b: "f32_of_int EXP_MIN = 0xC1A00000" "f32_of_int EXP_MAX = 0x41A00000"
    by (simp_all add: EXP_MIN_def EXP_MAX_def fp_eval)
  have c: "map (\<lambda>v. if f32_lt 0xC1A00000 v then (if f32_lt v 0x41A00000 then v else 0x41A00000)
                      else 0xC1A00000)
             [0x42C80000, 0xC2C80000, 0x7FC00000, 0x3F800000, 0, 0xFF800000, 0x7F800000, 0x41A00001] =
           [0x41A00000, 0xC1A00000, 0xC1A00000, 0x3F800000, 0, 0xC1A00000, 0x41A00000, 0x41A00000]"
    by (simp add: fp_eval)
  define X :: vf
    where "X = [0x42C80000, 0xC2C80000, 0x7FC00000, 0x3F800000, 0, 0xFF800000, 0x7F800000, 0x41A00001]"
  define L :: vf
    where "L = [0x41A00000, 0xC1A00000, 0xC1A00000, 0x3F800000, 0, 0xC1A00000, 0x41A00000, 0x41A00000]"
  note s = exp_saturates [where x = X and t = AVX2 and ndebug = True
      and EXP_LOOKUP = "replicate 41 f32_1"]
  have l: "length X = lanes AVX2" by (simp add: X_def)
  have B: "exp_clamp AVX2 X = L"
    using s [OF l, THEN conjunct2, THEN conjunct1] c unfolding b X_def L_def by simp
  have A: "exp_approx_taylor True (replicate 41 f32_1) AVX2 X =
           exp_approx_taylor True (replicate 41 f32_1) AVX2 L"
    using s [OF l, THEN conjunct1] unfolding B .
  have C: "\<exists>r. exp_approx_taylor True (replicate 41 f32_1) AVX2 X = Inr r"
    using s [OF l, THEN conjunct2, THEN conjunct2] by simp
  from A B C show ?thesis unfolding X_def L_def by simp
qed

theorem exp_family_tiers_witness:
  "exp_approx_taylor False (replicate 41 f32_1) SSE2 (replicate 4 0) = Inl AssertionFailed \<and>
   exp_approx_taylor True (replicate 41 f32_1) SSE2 (replicate 4 0) = Inl UndefinedBehaviour \<and>
   (\<exists>r. exp_approx_taylor False (replicate 41 f32_1) AVX512BW (replicate 16 0) = Inr r) \<and>
   (\<exists>r. sigmoid False (replicate 41 f32_1) (\<lambda>v. v) AVX512BW (replicate 16 0) = Inr r) \<and>
   (\<exists>r. tanh_ps False (replicate 41 f32_1) AVX512BW (replicate 16 0) = Inr r)"
  using exp_family_tiers [where ndebug = False and EXP_LOOKUP = "replicate 41 f32_1"
      and x = "replicate 4 0" and rcp = "\<lambda>v. v" and t = AVX512BW and y = "replicate 16 0"]
    exp_family_tiers [where ndebug = True and EXP_LOOKUP = "replicate 41 f32_1"
      and x = "replicate 4 0" and rcp = "\<lambda>v. v" and t = AVX512BW and y = "replicate 16 0"]
  by simp

section \<open>The coefficients of the polynomial\<close>

lemma factorial_values:
  "factorial 1 = 1" "factorial 2 = 2" "factorial 3 = 6" "factorial 4 = 24" "factorial 5 = 120"
  "factorial 6 = 720" "factorial 7 = 5040"
  by (simp_all add: factorial_def fact_numeral)

lemma of_factorial_values:
  "f32_of_int (factorial 1) = 0x3F800000" "f32_of_int (factorial 2) = 0x40000000"
  "f32_of_int (factorial 3) = 0x40C00000" "f32_of_int (factorial 4) = 0x41C00000"
  "f32_of_int (factorial 5) = 0x42F00000" "f32_of_int (factorial 6) = 0x44340000"
  "f32_of_int (factorial 7) = 0x459D8000"
  unfolding factorial_values by (simp_all add: fp_eval)

lemma divider_values:
  "divider 1 = 0x3F800000" "divider 2 = 0x3F000000" "divider 3 = 0x3E2AAAAB"
  "divider 4 = 0x3D2AAAAB" "divider 5 = 0x3C088889" "divider 6 = 0x3AB60B61"
  "divider 7 = 0x39500D01"
  unfolding divider_def of_factorial_values f32_1_def by (simp_all add: fp_eval)

lemma divider_lanes:
  "\<forall>c \<in> set [divider 6, divider 5, divider 4, divider 3, divider 2, divider 1, f32_1, divider 7].
     f32_is_finite c \<and> 0 < f32_ival c \<and> f32_mag c \<le> 2 ^ 149"
  unfolding divider_values f32_1_def by (simp add: fp_eval)

section \<open>The polynomial at a whole number\<close>

lemma f32_grid_zero: "f32_grid 0"
  by (simp add: f32_grid_def)

lemma f32_mag_pos: "0 < f32_ival c \<Longrightarrow> f32_mag c \<noteq> 0"
  by (auto simp add: fp_ival_def split: if_splits)

lemma f32_sub_cancel:
  assumes "f32_is_finite a" and "f32_is_finite b" and "f32_ival a = f32_ival b"
  shows "f32_is_finite (f32_sub a b)" "f32_mag (f32_sub a b) = 0"
proof -
  have z: "nat \<bar>f32_ival a - f32_ival b\<bar> = 0" using assms(3) by simp
  have g: "f32_grid (nat \<bar>f32_ival a - f32_ival b\<bar>)" unfolding z by (rule f32_grid_zero)
  have l: "nat \<bar>f32_ival a - f32_ival b\<bar> < 2 ^ 277" unfolding z by simp
  note e = f32_sub_exact [OF assms(1,2) g l]
  show "f32_is_finite (f32_sub a b)" by (rule e(1))
  from e(2) assms(3) f32_ival_bounds [of "f32_sub a b"] show "f32_mag (f32_sub a b) = 0" by simp
qed

lemma f32_mul_zero:
  assumes "f32_is_finite a" and "f32_is_finite z" and "f32_mag z = 0"
  shows "f32_is_finite (f32_mul a z)" "f32_mag (f32_mul a z) = 0"
proof -
  have m: "f32_mul a z = f32_round (f32_sign a \<noteq> f32_sign z) (0 * 2 ^ 149) (2 ^ 149)"
    unfolding f32_mul_finite [OF assms(1,2)] assms(3) by simp
  have p: "(0::nat) < 2 ^ 149" and l: "(0::nat) < 2 ^ 277" by simp_all
  from f32_round_exact(1,3) [OF p f32_grid_zero l, of "f32_sign a \<noteq> f32_sign z"]
  show "f32_is_finite (f32_mul a z)" "f32_mag (f32_mul a z) = 0"
    unfolding m by simp_all
qed

lemma f32_add_zero_left:
  assumes "f32_is_finite z" and "f32_mag z = 0" and "f32_is_finite c" and "f32_mag c \<noteq> 0"
  shows "f32_add z c = c"
proof -
  have iz: "f32_ival z = 0" using assms(2) by (simp add: fp_ival_def)
  have s: "(f32_ival c < 0) = f32_sign c" using assms(4) by (simp add: fp_ival_def)
  have n: "nat \<bar>f32_ival c\<bar> = f32_mag c * 1" by (simp add: f32_ival_bounds)
  have nz: "f32_ival c \<noteq> 0" using assms(4) f32_ival_bounds [of c] by simp
  have "f32_add z c = f32_round (f32_ival c < 0) (nat \<bar>f32_ival c\<bar>) 1"
    using f32_classes(2) [OF assms(1)] f32_classes(2) [OF assms(3)] nz
    by (simp add: fp_add_def iz Let_def)
  also have "\<dots> = f32_round (f32_sign c) (f32_mag c * 1) 1" unfolding s n ..
  also have "\<dots> = c" by (rule f32_round_self [OF _ assms(3)]) simp
  finally show ?thesis .
qed

lemma horner_zero:
  assumes "f32_is_finite z" and "f32_mag z = 0"
    and "\<forall>c \<in> set cs. f32_is_finite c \<and> f32_mag c \<noteq> 0" and "f32_is_finite acc"
  shows "horner cs z acc = last (acc # cs)"
  using assms(3,4)
proof (induction cs arbitrary: acc)
  case Nil
  show ?case by simp
next
  case (Cons c cs)
  from Cons.prems have c: "f32_is_finite c" "f32_mag c \<noteq> 0" by simp_all
  have "f32_add (f32_mul acc z) c = c"
    using f32_mul_zero [OF Cons.prems(2) assms(1,2)] c by (intro f32_add_zero_left)
  then have "horner (c # cs) z acc = horner cs z c" by simp
  also have "\<dots> = last (c # cs)" using Cons.prems(1) c(1) by (intro Cons.IH) simp_all
  finally show ?case by simp
qed

lemma poly_lane_zero:
  assumes "f32_is_finite z" and "f32_mag z = 0"
  shows "poly_lane z = f32_1"
proof -
  have "\<forall>c \<in> set [divider 6, divider 5, divider 4, divider 3, divider 2, divider 1, f32_1].
          f32_is_finite c \<and> f32_mag c \<noteq> 0"
    and "f32_is_finite (divider 7)"
    using divider_lanes f32_mag_pos by simp_all
  from horner_zero [OF assms this] show ?thesis by (simp add: poly_lane_def)
qed

lemma f32_mul_one:
  assumes "f32_is_finite e"
  shows "f32_mul e f32_1 = e"
proof -
  have "f32_mul e f32_1 = f32_round (f32_sign e) (f32_mag e * 2 ^ 149) (2 ^ 149)"
    unfolding f32_mul_finite [OF assms f32_one_lane(1)] f32_one_lane(3)
    using f32_one_lane(4) by simp
  also have "\<dots> = e" by (rule f32_round_self [OF _ assms]) simp
  finally show ?thesis .
qed

lemma f32_valof_int:
  "f32_valof v = of_int n \<longleftrightarrow> f32_ival v = n * 2 ^ 149"
proof -
  have "f32_valof v = of_int n \<longleftrightarrow> (of_int (f32_ival v) :: rat) = of_int (n * 2 ^ 149)"
    by (simp add: fp_valof_def fp_unit_def divide_eq_eq)
  then show ?thesis by (simp only: of_int_eq_iff)
qed

lemma exp_lane_integer:
  assumes "length EXP_LOOKUP = 41" and "f32_is_finite v" and "f32_ival v = n * 2 ^ 149"
    and "- 20 \<le> n" and "n \<le> 20" and "f32_is_finite (EXP_LOOKUP ! nat (20 + n))"
  shows "exp_lane EXP_LOOKUP t v = Some (EXP_LOOKUP ! nat (20 + n))"
    and "poly_lane (f32_sub (clamp_lane v) (floor_lane t (clamp_lane v))) = f32_1"
proof -
  have lo: "- 20 * 2 ^ 149 \<le> f32_ival v" and hi: "f32_ival v \<le> 20 * 2 ^ 149"
    unfolding assms(3) using assms(4,5) by simp_all
  have c: "f32_ival (clamp_lane v) = n * 2 ^ 149"
    using clamp_lane_inside [OF assms(2) lo hi] assms(3) by simp
  have q: "f32_ival (clamp_lane v) div 2 ^ 149 = n" unfolding c by simp
  note fl = exp_lane_floor(1,2) [where v = v and t = t, unfolded q]
  have "f32_ival (clamp_lane v) = f32_ival (floor_lane t (clamp_lane v))"
    unfolding fl(2) by (rule c)
  from f32_sub_cancel [OF clamp_lane_range(1) fl(1) this]
  have "poly_lane (f32_sub (clamp_lane v) (floor_lane t (clamp_lane v))) = f32_1"
    by (rule poly_lane_zero)
  then show "poly_lane (f32_sub (clamp_lane v) (floor_lane t (clamp_lane v))) = f32_1" .
  then show "exp_lane EXP_LOOKUP t v = Some (EXP_LOOKUP ! nat (20 + n))"
    unfolding exp_lane_Some [OF assms(1)] q using f32_mul_one [OF assms(6)] by simp
qed

lemma exp_lane_whole:
  assumes "length EXP_LOOKUP = 41" and "\<forall>e \<in> set EXP_LOOKUP. f32_is_finite e"
    and "f32_is_finite v" and "f32_valof v = of_int \<lfloor>f32_valof v\<rfloor>"
    and "- 20 \<le> f32_valof v" and "f32_valof v \<le> 20"
  shows "exp_lane EXP_LOOKUP t v = Some (EXP_LOOKUP ! nat (EXP_MAX + \<lfloor>f32_valof v\<rfloor>))"
    and "poly_lane (f32_sub (clamp_lane v) (floor_lane t (clamp_lane v))) = f32_1"
proof -
  define n where "n = \<lfloor>f32_valof v\<rfloor>"
  have v: "f32_valof v = of_int n" unfolding n_def by (rule assms(4))
  have i: "f32_ival v = n * 2 ^ 149" using v by (simp only: f32_valof_int)
  have "(of_int (- 20) :: rat) \<le> of_int n" using assms(5) unfolding v by simp
  then have lo: "- 20 \<le> n" by (simp only: of_int_le_iff)
  have "(of_int n :: rat) \<le> of_int 20" using assms(6) unfolding v by simp
  then have hi: "n \<le> 20" by (simp only: of_int_le_iff)
  have "nat (20 + n) < length EXP_LOOKUP" using lo hi assms(1) by simp
  then have "EXP_LOOKUP ! nat (20 + n) \<in> set EXP_LOOKUP" by (rule nth_mem)
  with assms(2) have f: "f32_is_finite (EXP_LOOKUP ! nat (20 + n))" by simp
  from exp_lane_integer [OF assms(1,3) i lo hi f, of t]
  show "exp_lane EXP_LOOKUP t v = Some (EXP_LOOKUP ! nat (EXP_MAX + \<lfloor>f32_valof v\<rfloor>))"
    and "poly_lane (f32_sub (clamp_lane v) (floor_lane t (clamp_lane v))) = f32_1"
    unfolding n_def [symmetric] by (simp_all add: EXP_MAX_def)
qed

text \<open>
  C7. On the tiers that have the kernel, in a lane that holds a whole number \<open>n\<close> with
  \<open>-20 \<le> n \<le> 20\<close> \<^verbatim>\<open>exp_approx_taylor\<close> returns the entry \<^verbatim>\<open>EXP_LOOKUP[EXP_MAX + n]\<close> of the
  table, which is the one the initialiser fills with \<^verbatim>\<open>expi(n)\<close>, bit for bit: the
  remainder \<open>x - floor x\<close> is zero and the polynomial is exactly \<open>1\<close> in every lane. So it is
  for a register whose lanes all hold \<open>n\<close>. The entries of the table, which comes from a
  header that is not part of the sources at hand, are taken to be finite floats.
\<close>

theorem exp_at_whole_numbers:
  assumes "t \<noteq> SSE2" and "length x = lanes t"
    and "length EXP_LOOKUP = 41" and "\<forall>e \<in> set EXP_LOOKUP. f32_is_finite e"
    and "\<forall>v \<in> set x. f32_is_finite v \<and> f32_valof v = of_int \<lfloor>f32_valof v\<rfloor> \<and>
           - 20 \<le> f32_valof v \<and> f32_valof v \<le> 20"
  shows "exp_approx_taylor ndebug EXP_LOOKUP t x =
           Inr (map (\<lambda>v. EXP_LOOKUP ! nat (EXP_MAX + \<lfloor>f32_valof v\<rfloor>)) x) \<and>
         taylor_poly t (sub_ps (exp_clamp t x) (floor_ps t (exp_clamp t x))) = set1_ps t f32_1"
proof -
  have lane: "exp_lane EXP_LOOKUP t v = Some (EXP_LOOKUP ! nat (EXP_MAX + \<lfloor>f32_valof v\<rfloor>))"
    and poly: "poly_lane (f32_sub (clamp_lane v) (floor_lane t (clamp_lane v))) = f32_1"
    if "v \<in> set x" for v
    using exp_lane_whole [OF assms(3,4), of v t] assms(5) that by simp_all
  have m: "map (exp_lane EXP_LOOKUP t) x =
        map (\<lambda>v. Some (EXP_LOOKUP ! nat (EXP_MAX + \<lfloor>f32_valof v\<rfloor>))) x"
    using lane by simp
  have e: "exp_approx_taylor ndebug EXP_LOOKUP t x =
           Inr (map (\<lambda>v. EXP_LOOKUP ! nat (EXP_MAX + \<lfloor>f32_valof v\<rfloor>)) x)"
    unfolding exp_approx_taylor_lanes [OF assms(2,1)] m those_map_Some by simp
  have lc: "length (map clamp_lane x) = lanes t" using assms(2) by simp
  have xa: "sub_ps (exp_clamp t x) (floor_ps t (exp_clamp t x)) =
        map (\<lambda>v. f32_sub (clamp_lane v) (floor_lane t (clamp_lane v))) x"
    unfolding exp_clamp_lanes [OF assms(2)] floor_ps_lanes [OF lc] sub_ps_def
    by (simp only: lanewise)
  have lx: "length (map (\<lambda>v. f32_sub (clamp_lane v) (floor_lane t (clamp_lane v))) x) = lanes t"
    using assms(2) by simp
  have "taylor_poly t (sub_ps (exp_clamp t x) (floor_ps t (exp_clamp t x))) =
        map (\<lambda>v. f32_1) x"
    unfolding xa taylor_poly_lanes [OF lx] using poly by simp
  also have "\<dots> = set1_ps t f32_1"
    unfolding set1_ps_def assms(2) [symmetric] by (simp add: map_replicate_const)
  finally show ?thesis using e by simp
qed

theorem exp_at_whole_numbers_witness:
  "exp_approx_taylor False (replicate 23 0 @ [0x41A0AF2E] @ replicate 17 0) AVX2
       (set1_ps AVX2 0x40400000) = Inr (set1_ps AVX2 0x41A0AF2E) \<and>
   f32_valof 0x40400000 = 3"
proof -
  have v: "f32_valof 0x40400000 = 3" by (simp add: fp_valof_def fp_eval)
  have f: "f32_is_finite 0x40400000" "f32_is_finite 0x41A0AF2E" "f32_is_finite 0"
    by (simp_all add: fp_eval)
  have fl: "\<lfloor>3 :: rat\<rfloor> = 3" by simp
  have n: "(replicate 23 0 @ 0x41A0AF2E # replicate 17 0) ! 23 = (0x41A0AF2E :: f32)"
    by (simp add: nth_append)
  show ?thesis
    using exp_at_whole_numbers [where t = AVX2 and x = "set1_ps AVX2 0x40400000"
        and EXP_LOOKUP = "replicate 23 0 @ [0x41A0AF2E] @ replicate 17 0" and ndebug = False]
    by (simp add: set1_ps_def v f fl n EXP_MAX_def)
qed

section \<open>The sign of the exponential\<close>

lemma f32_ival_pos:
  "0 < f32_ival c \<longleftrightarrow> \<not> f32_sign c \<and> 0 < f32_mag c"
  by (auto simp add: fp_ival_def)

lemma f32_ival_unsigned: "\<not> f32_sign c \<Longrightarrow> f32_ival c = int (f32_mag c)"
  by (simp add: fp_ival_def)

lemma f32_ival_zero: "f32_mag c = 0 \<Longrightarrow> f32_ival c = 0"
  by (simp add: fp_ival_def)

lemma grid_bound:
  assumes "B \<le> 2 ^ 24"
  shows "f32_grid (B * 2 ^ 149)" "B * 2 ^ 149 < 2 ^ 277"
proof -
  show "f32_grid (B * 2 ^ 149)" using assms by (rule grid_int)
  have "B * 2 ^ 149 \<le> 2 ^ 24 * 2 ^ 149" using assms by (rule mult_le_mono1)
  then show "B * 2 ^ 149 < 2 ^ 277" by simp
qed

lemma f32_sub_remainder:
  assumes "f32_is_finite a" and "f32_is_finite b"
    and "0 \<le> f32_ival a - f32_ival b" and "f32_ival a - f32_ival b \<le> 2 ^ 149"
  shows "f32_is_finite (f32_sub a b) \<and> f32_mag (f32_sub a b) \<le> 2 ^ 149 \<and>
         (f32_sign (f32_sub a b) \<longrightarrow> f32_mag (f32_sub a b) = 0)"
proof -
  define s where "s = f32_ival a - f32_ival b"
  have nb: "f32_is_finite (fp_neg 8 23 b)" using assms(2) by (simp add: fp_neg_lane)
  have e: "f32_sub a b =
        (if s = 0 then fp_zero 8 23 (f32_sign a \<and> f32_sign (fp_neg 8 23 b))
         else f32_round (s < 0) (nat \<bar>s\<bar>) 1)"
    using f32_classes(2) [OF assms(1)] f32_classes(2) [OF assms(2)] f32_classes(2) [OF nb]
    by (simp add: fp_sub_def fp_add_def Let_def fp_neg_lane s_def)
  show ?thesis
  proof (cases "s = 0")
    case True
    then show ?thesis unfolding e by (simp add: f32_zero_lane)
  next
    case False
    with assms(3) have pos: "\<not> s < 0" by (simp add: s_def)
    have g: "f32_grid (1 * 2 ^ 149)" "(1::nat) * 2 ^ 149 < 2 ^ 277"
      by (rule grid_bound, simp)+
    have le: "nat \<bar>s\<bar> \<le> 1 * 2 ^ 149 * 1" using assms(3,4) by (simp add: s_def nat_le_iff)
    from f32_round_le [OF _ g(1) le g(2), of False] f32_round_sign(1) [of 1 False "nat \<bar>s\<bar>"]
    show ?thesis unfolding e using False pos by simp
  qed
qed

lemma f32_mul_bound:
  assumes "f32_is_finite a" and "0 < f32_ival a" and "f32_mag a \<le> B * 2 ^ 149" and "B \<le> 2 ^ 24"
    and "f32_is_finite z" and "f32_mag z \<le> 2 ^ 149" and "f32_sign z \<longrightarrow> f32_mag z = 0"
  shows "f32_is_finite (f32_mul a z) \<and> 0 \<le> f32_ival (f32_mul a z) \<and>
         f32_ival (f32_mul a z) \<le> int (B * 2 ^ 149)"
proof -
  have sa: "\<not> f32_sign a" using assms(2) by (simp add: f32_ival_pos)
  have m: "f32_mul a z = f32_round (f32_sign z) (f32_mag a * f32_mag z) (2 ^ 149)"
    unfolding f32_mul_finite [OF assms(1,5)] using sa by simp
  have p: "(0::nat) < 2 ^ 149" by simp
  have "f32_mag a * f32_mag z \<le> B * 2 ^ 149 * 2 ^ 149"
    using assms(3,6) by (rule mult_le_mono)
  from f32_round_le [OF p grid_bound(1) [OF assms(4)] this grid_bound(2) [OF assms(4)], of "f32_sign z"]
  have f: "f32_is_finite (f32_mul a z)" and le: "f32_mag (f32_mul a z) \<le> B * 2 ^ 149"
    unfolding m by simp_all
  have s: "f32_sign (f32_mul a z) = f32_sign z"
    unfolding m by (rule f32_round_sign(1) [OF p])
  show ?thesis
  proof (cases "f32_sign z")
    case True
    with assms(7) have z: "f32_mag a * f32_mag z \<le> 0 * 2 ^ 149" by simp
    have l: "(0::nat) < 2 ^ 277" by simp
    from f32_round_le(2) [OF p f32_grid_zero z l, of "f32_sign z"]
    have "f32_mag (f32_mul a z) = 0" unfolding m by simp
    then have "f32_ival (f32_mul a z) = 0" by (rule f32_ival_zero)
    with f show ?thesis by simp
  next
    case False
    with s have "f32_ival (f32_mul a z) = int (f32_mag (f32_mul a z))"
      by (intro f32_ival_unsigned) simp
    with f le show ?thesis by simp
  qed
qed

lemma f32_add_bound:
  assumes "f32_is_finite p" and "0 \<le> f32_ival p" and "f32_ival p \<le> int (B * 2 ^ 149)"
    and "f32_is_finite c" and "0 < f32_ival c" and "f32_mag c \<le> 2 ^ 149" and "Suc B \<le> 2 ^ 24"
  shows "f32_is_finite (f32_add p c) \<and> f32_ival c \<le> f32_ival (f32_add p c) \<and>
         f32_mag (f32_add p c) \<le> Suc B * 2 ^ 149"
proof -
  define s where "s = f32_ival p + f32_ival c"
  have sp: "0 < s" using assms(2,5) by (simp add: s_def)
  have ic: "f32_ival c = int (f32_mag c)" using assms(5) by (simp add: f32_ival_pos f32_ival_unsigned)
  have e: "f32_add p c = f32_round False (nat s) 1"
    using f32_classes(2) [OF assms(1)] f32_classes(2) [OF assms(4)] sp
    by (simp add: fp_add_def Let_def s_def [symmetric])
  have "s \<le> int (B * 2 ^ 149) + int (2 ^ 149)" using assms(3,6) ic by (simp add: s_def)
  also have "\<dots> = int (Suc B * 2 ^ 149 * 1)" by simp
  finally have le: "nat s \<le> Suc B * 2 ^ 149 * 1" by (simp only: nat_le_iff)
  have ge: "f32_mag c * 1 \<le> nat s" using assms(2) ic by (simp add: s_def)
  note r = f32_round_le [OF _ grid_bound(1) [OF assms(7)] le grid_bound(2) [OF assms(7)], of False]
  have mg: "f32_mag c \<le> f32_mag (f32_add p c)"
    unfolding e by (rule f32_round_mag_ge [OF _ f32_mag_grid ge f32_mag_finite [OF assms(4)]]) simp
  have "\<not> f32_sign (f32_add p c)" unfolding e using f32_round_sign(1) [of 1 False "nat s"] by simp
  then have "f32_ival (f32_add p c) = int (f32_mag (f32_add p c))" by (rule f32_ival_unsigned)
  with r mg ic show ?thesis unfolding e by simp
qed

lemma horner_pos:
  assumes "f32_is_finite z" and "f32_mag z \<le> 2 ^ 149" and "f32_sign z \<longrightarrow> f32_mag z = 0"
    and "\<forall>c \<in> set cs. f32_is_finite c \<and> 0 < f32_ival c \<and> f32_mag c \<le> 2 ^ 149"
    and "f32_is_finite acc" and "0 < f32_ival acc" and "f32_mag acc \<le> B * 2 ^ 149"
    and "B + length cs \<le> 2 ^ 24"
  shows "f32_is_finite (horner cs z acc) \<and> 0 < f32_ival (horner cs z acc) \<and>
         f32_mag (horner cs z acc) \<le> (B + length cs) * 2 ^ 149 \<and>
         (cs \<noteq> [] \<longrightarrow> f32_ival (last cs) \<le> f32_ival (horner cs z acc))"
  using assms(4-8)
proof (induction cs arbitrary: acc B)
  case Nil
  then show ?case by simp
next
  case (Cons c cs)
  from Cons.prems(1) have c: "f32_is_finite c" "0 < f32_ival c" "f32_mag c \<le> 2 ^ 149"
    and cs: "\<forall>c \<in> set cs. f32_is_finite c \<and> 0 < f32_ival c \<and> f32_mag c \<le> 2 ^ 149"
    by simp_all
  from Cons.prems(5) have B: "B \<le> 2 ^ 24" "Suc B \<le> 2 ^ 24" "Suc B + length cs \<le> 2 ^ 24"
    by simp_all
  define acc' where "acc' = f32_add (f32_mul acc z) c"
  from f32_mul_bound [OF Cons.prems(2,3,4) B(1) assms(1,2,3)]
  have m: "f32_is_finite (f32_mul acc z)" "0 \<le> f32_ival (f32_mul acc z)"
    "f32_ival (f32_mul acc z) \<le> int (B * 2 ^ 149)"
    by simp_all
  from f32_add_bound [OF m c B(2)]
  have a: "f32_is_finite acc'" "f32_ival c \<le> f32_ival acc'" "f32_mag acc' \<le> Suc B * 2 ^ 149"
    unfolding acc'_def by simp_all
  from a(2) c(2) have pos: "0 < f32_ival acc'" by simp
  note ih = Cons.IH [OF cs a(1) pos a(3) B(3)]
  have h: "horner (c # cs) z acc = horner cs z acc'" by (simp add: acc'_def)
  show ?case
  proof (cases "cs = []")
    case True
    with a pos show ?thesis unfolding h by simp
  next
    case False
    with ih show ?thesis unfolding h by simp
  qed
qed

lemma poly_lane_ge_one:
  assumes "f32_is_finite z" and "f32_mag z \<le> 2 ^ 149" and "f32_sign z \<longrightarrow> f32_mag z = 0"
  shows "f32_is_finite (poly_lane z)" "2 ^ 149 \<le> f32_ival (poly_lane z)"
proof -
  have cs: "\<forall>c \<in> set [divider 6, divider 5, divider 4, divider 3, divider 2, divider 1, f32_1].
          f32_is_finite c \<and> 0 < f32_ival c \<and> f32_mag c \<le> 2 ^ 149"
    and d: "f32_is_finite (divider 7)" "0 < f32_ival (divider 7)" "f32_mag (divider 7) \<le> 1 * 2 ^ 149"
    using divider_lanes by simp_all
  have b: "1 + length [divider 6, divider 5, divider 4, divider 3, divider 2, divider 1, f32_1]
        \<le> (2::nat) ^ 24"
    by simp
  from horner_pos [OF assms cs d b]
  show "f32_is_finite (poly_lane z)" "2 ^ 149 \<le> f32_ival (poly_lane z)"
    unfolding poly_lane_def by (simp_all add: f32_one_lane)
qed

lemma f32_valof_ge_one: "1 \<le> f32_valof y \<longleftrightarrow> 2 ^ 149 \<le> f32_ival y"
proof -
  have "1 \<le> f32_valof y \<longleftrightarrow> (of_int (2 ^ 149) :: rat) \<le> of_int (f32_ival y)"
    by (simp add: fp_valof_def fp_unit_def pos_le_divide_eq)
  then show ?thesis by (simp only: of_int_le_iff)
qed

lemma f32_valof_pos: "0 < f32_valof y \<longleftrightarrow> 0 < f32_ival y"
  by (simp add: fp_valof_def fp_unit_def zero_less_divide_iff)

lemma exp_remainder_lane:
  "f32_is_finite (f32_sub (clamp_lane v) (floor_lane t (clamp_lane v))) \<and>
   f32_mag (f32_sub (clamp_lane v) (floor_lane t (clamp_lane v))) \<le> 2 ^ 149 \<and>
   (f32_sign (f32_sub (clamp_lane v) (floor_lane t (clamp_lane v))) \<longrightarrow>
      f32_mag (f32_sub (clamp_lane v) (floor_lane t (clamp_lane v))) = 0)"
proof -
  note fl = exp_lane_floor(1,2) [where v = v and t = t]
  have d: "f32_ival (clamp_lane v) - f32_ival (floor_lane t (clamp_lane v)) =
        f32_ival (clamp_lane v) mod 2 ^ 149"
    unfolding fl(2) by (simp add: minus_div_mult_eq_mod)
  have lo: "0 \<le> f32_ival (clamp_lane v) - f32_ival (floor_lane t (clamp_lane v))"
    unfolding d by simp
  have "f32_ival (clamp_lane v) mod 2 ^ 149 < 2 ^ 149" by simp
  then have hi: "f32_ival (clamp_lane v) - f32_ival (floor_lane t (clamp_lane v)) \<le> 2 ^ 149"
    unfolding d by simp
  from f32_sub_remainder [OF clamp_lane_range(1) fl(1) lo hi] show ?thesis .
qed

lemma exp_poly_lane:
  "f32_is_finite (poly_lane (f32_sub (clamp_lane v) (floor_lane t (clamp_lane v))))"
  "2 ^ 149 \<le> f32_ival (poly_lane (f32_sub (clamp_lane v) (floor_lane t (clamp_lane v))))"
proof -
  note r = exp_remainder_lane [of v t]
  from r have a: "f32_is_finite (f32_sub (clamp_lane v) (floor_lane t (clamp_lane v)))"
    and b: "f32_mag (f32_sub (clamp_lane v) (floor_lane t (clamp_lane v))) \<le> 2 ^ 149"
    and c: "f32_sign (f32_sub (clamp_lane v) (floor_lane t (clamp_lane v))) \<longrightarrow>
      f32_mag (f32_sub (clamp_lane v) (floor_lane t (clamp_lane v))) = 0"
    by blast+
  show "f32_is_finite (poly_lane (f32_sub (clamp_lane v) (floor_lane t (clamp_lane v))))"
    by (rule poly_lane_ge_one(1) [OF a b c])
  show "2 ^ 149 \<le> f32_ival (poly_lane (f32_sub (clamp_lane v) (floor_lane t (clamp_lane v))))"
    by (rule poly_lane_ge_one(2) [OF a b c])
qed

lemma f32_mul_pos:
  assumes "f32_is_finite e" and "0 < f32_ival e" and "f32_is_finite p" and "2 ^ 149 \<le> f32_ival p"
  shows "\<not> f32_is_nan (f32_mul e p)" "0 < f32_ival (f32_mul e p)"
proof -
  have se: "\<not> f32_sign e" and me: "0 < f32_mag e" using assms(2) by (simp_all add: f32_ival_pos)
  have "0 < f32_ival p" using assms(4) by (simp add: less_le_trans [OF _ assms(4)])
  then have sp: "\<not> f32_sign p" by (simp add: f32_ival_pos)
  then have "f32_ival p = int (f32_mag p)" by (rule f32_ival_unsigned)
  with assms(4) have "int (2 ^ 149) \<le> int (f32_mag p)" by simp
  then have mp: "2 ^ 149 \<le> f32_mag p" by (simp only: of_nat_le_iff)
  have m: "f32_mul e p = f32_round False (f32_mag e * f32_mag p) (2 ^ 149)"
    unfolding f32_mul_finite [OF assms(1,3)] using se sp by simp
  have u: "(0::nat) < 2 ^ 149" by simp
  have ge: "f32_mag e * 2 ^ 149 \<le> f32_mag e * f32_mag p" using mp by (rule mult_le_mono2)
  note s = f32_round_sign [OF u, of False "f32_mag e * f32_mag p"]
  from s(2) show "\<not> f32_is_nan (f32_mul e p)" unfolding m .
  have "f32_mag e \<le> f32_mag (f32_mul e p)"
    unfolding m by (rule f32_round_mag_ge [OF u f32_mag_grid ge f32_mag_finite [OF assms(1)]])
  with me s(1) show "0 < f32_ival (f32_mul e p)" unfolding m by (simp add: f32_ival_pos)
qed

text \<open>
  C10. On the tiers that have the kernel, and for every input register (a NaN lane, an
  infinite lane and a lane out of range are clamped into \<open>[-20, 20]\<close> first),
  \<^verbatim>\<open>exp_approx_taylor\<close> returns a register whose lanes are all strictly positive and none a
  NaN: the polynomial is a finite float that is at least \<open>1\<close> in every lane, and it is
  multiplied with an entry of the table. The entries of the table, which comes from a header
  that is not part of the sources at hand, are taken to be finite and positive floats.
\<close>

theorem exp_positive:
  assumes "t \<noteq> SSE2" and "length x = lanes t"
    and "length EXP_LOOKUP = 41" and "\<forall>e \<in> set EXP_LOOKUP. f32_is_finite e \<and> 0 < f32_valof e"
  shows "(\<exists>r. exp_approx_taylor ndebug EXP_LOOKUP t x = Inr r \<and> length r = lanes t \<and>
              (\<forall>y \<in> set r. \<not> f32_is_nan y \<and> 0 < f32_valof y)) \<and>
         (\<forall>p \<in> set (taylor_poly t (sub_ps (exp_clamp t x) (floor_ps t (exp_clamp t x)))).
              f32_is_finite p \<and> 1 \<le> f32_valof p)"
proof -
  let ?xa = "\<lambda>v. f32_sub (clamp_lane v) (floor_lane t (clamp_lane v))"
  let ?ea = "\<lambda>v. EXP_LOOKUP ! nat (20 + f32_ival (clamp_lane v) div 2 ^ 149)"
  have ea: "f32_is_finite (?ea v) \<and> 0 < f32_ival (?ea v)" for v
  proof -
    from exp_lane_floor(3,4) [where v = v] assms(3)
    have "nat (20 + f32_ival (clamp_lane v) div 2 ^ 149) < length EXP_LOOKUP" by simp
    then have "?ea v \<in> set EXP_LOOKUP" by (rule nth_mem)
    with assms(4) show ?thesis by (simp add: f32_valof_pos)
  qed
  have lane: "\<not> f32_is_nan (f32_mul (?ea v) (poly_lane (?xa v))) \<and>
              0 < f32_valof (f32_mul (?ea v) (poly_lane (?xa v)))" for v
    using f32_mul_pos [OF _ _ exp_poly_lane, of "?ea v" v t] ea [of v]
    by (simp add: f32_valof_pos)
  have r: "exp_approx_taylor ndebug EXP_LOOKUP t x =
        Inr (map (\<lambda>v. f32_mul (?ea v) (poly_lane (?xa v))) x)"
    by (rule exp_approx_taylor_total [OF assms(2,1,3)])
  have lc: "length (map clamp_lane x) = lanes t" using assms(2) by simp
  have xa: "sub_ps (exp_clamp t x) (floor_ps t (exp_clamp t x)) = map ?xa x"
    unfolding exp_clamp_lanes [OF assms(2)] floor_ps_lanes [OF lc] sub_ps_def
    by (simp only: lanewise)
  have lx: "length (map ?xa x) = lanes t" using assms(2) by simp
  have p: "taylor_poly t (sub_ps (exp_clamp t x) (floor_ps t (exp_clamp t x))) =
        map (\<lambda>v. poly_lane (?xa v)) x"
    unfolding xa taylor_poly_lanes [OF lx] by simp
  show ?thesis
    unfolding r p using lane exp_poly_lane assms(2) by (simp add: f32_valof_ge_one)
qed

theorem exp_positive_witness:
  "(\<exists>r. exp_approx_taylor False (replicate 41 f32_1) AVX2
          [0x7FC00000, 0x7F800000, 0xFF800000, 0xC2C80000, 0x42C80000, 0, 0x80000000, 0xBF000000] = Inr r \<and>
        length r = 8 \<and> (\<forall>y \<in> set r. \<not> f32_is_nan y \<and> 0 < f32_valof y))"
proof -
  have f: "f32_is_finite f32_1" "f32_valof f32_1 = 1"
    by (simp_all add: fp_valof_def fp_eval)
  show ?thesis
    using exp_positive [where t = AVX2 and EXP_LOOKUP = "replicate 41 f32_1" and ndebug = False
        and x = "[0x7FC00000, 0x7F800000, 0xFF800000, 0xC2C80000, 0x42C80000, 0, 0x80000000, 0xBF000000]"]
    by (simp add: f)
qed



section \<open>The grid and powers of two\<close>


section \<open>Quantisation by a power of two\<close>
















end
